theory Spec2Isabelle
  imports Main "HOL-Library.Word" "HOL-Library.AList"
begin

section \<open>The CoSi consensus core of the kernel (kernel/cosi.go)\<close>

text \<open>
  A shallow embedding of the collective-signing action handlers, the round operations
  and the memoised signature verification of the kernel package. Pointers that may be
  nil are options, Go maps are partial functions, \<open>uint64\<close> is a 64-bit word whose
  arithmetic wraps, and a handler is a function from the node's state to an outcome
  (returned, returned an error, panicked) with the state it leaves behind. What the
  handlers do to their collaborators (peer, persistent store, cache store, verifier) is
  recorded in an event log; what the collaborators answer is a parameter.
\<close>

subsection \<open>Bytes, hashes, keys\<close>

type_synonym byte = "8 word"
type_synonym u64 = "64 word"

text \<open>\<open>crypto.Hash\<close> and \<open>crypto.Key\<close> are \<open>[32]byte\<close>, \<open>crypto.Signature\<close> is \<open>[64]byte\<close>.\<close>

type_synonym hash = "byte list"
type_synonym Key = "byte list"
type_synonym PublicKey = "byte list"
type_synonym PrivateKey = "byte list"
type_synonym Commitment = "byte list"
type_synonym Response = "byte list"
type_synonym Signature = "byte list"

text \<open>
  \<open>crypto.CosiSignature\<close>: the handlers read its list of per-signer responses
  (\<open>Signatures\<close>); the mask of participants is the other field the specification names.
\<close>

record CosiSignature =
  cosi_Signatures :: "Signature list"
  cosi_Mask :: u64

subsection \<open>The crypto package, as far as the kernel calls it\<close>

text \<open>
  The crypto package is not part of the sources at hand. Its operations are parameters:
  the record below holds one function per operation the kernel code calls.
\<close>

record crypto_ops =
  hash_String :: "hash \<Rightarrow> string"
  sig_String :: "CosiSignature \<Rightarrow> string"
  MsgpackMarshalPanic :: "CosiSignature \<Rightarrow> byte list"
  pub_Key :: "PublicKey \<Rightarrow> byte list"
  NewHash :: "byte list \<Rightarrow> hash"
  FullVerify :: "CosiSignature \<Rightarrow> PublicKey list \<Rightarrow> int \<Rightarrow> byte list \<Rightarrow> bool"
  Challenge :: "CosiSignature \<Rightarrow> PublicKey list \<Rightarrow> byte list \<Rightarrow> byte list \<times> string option"
  VerifyWithChallenge :: "PublicKey \<Rightarrow> byte list \<Rightarrow> Signature \<Rightarrow> byte list \<Rightarrow> bool"
  SignWithChallenge :: "PrivateKey \<Rightarrow> PrivateKey \<Rightarrow> byte list \<Rightarrow> byte list \<Rightarrow> Signature"
  WithCommitment :: "Signature \<Rightarrow> Commitment option \<Rightarrow> Signature"
  DumpSignatureResponse :: "CosiSignature \<Rightarrow> Signature \<Rightarrow> Response"
  LoadResponseSignature ::
    "CosiSignature \<Rightarrow> Commitment option \<Rightarrow> Response option \<Rightarrow> Signature \<times> string option"
  AggregateSignature :: "CosiSignature \<Rightarrow> int \<Rightarrow> Signature \<Rightarrow> CosiSignature \<times> string option"
  CosiAggregateCommitments ::
    "(int \<times> Commitment option) list \<Rightarrow> CosiSignature option \<times> string option"
  priv_Public :: "PrivateKey \<Rightarrow> PublicKey"

subsection \<open>The cache store\<close>

text \<open>
  \<open>node.cacheStore\<close> is a key-value cache with \<open>Get\<close> and \<open>Set\<close>: a map from keys to
  byte strings that keeps what was set; \<open>Get\<close> of an absent key yields the empty slice.
\<close>

type_synonym cache_store = "string \<rightharpoonup> byte list"

definition cacheStore_Get :: "cache_store \<Rightarrow> string \<Rightarrow> byte list" where
  "cacheStore_Get store k = (case store k of None \<Rightarrow> [] | Some v \<Rightarrow> v)"

definition cacheStore_Set :: "cache_store \<Rightarrow> string \<Rightarrow> byte list \<Rightarrow> cache_store" where
  "cacheStore_Set store k v = store(k \<mapsto> v)"

text \<open>What one call does to the cache store and to the verifier, in order.\<close>

datatype cache_event =
    CacheGet string
  | CacheSet string "byte list"
  | FullVerifyCall CosiSignature "PublicKey list" int hash

subsection \<open>CacheVerifyCosi\<close>

text \<open>\<open>binary.BigEndian.PutUint64\<close>: the eight bytes of a 64-bit value, highest first.\<close>

definition PutUint64 :: "u64 \<Rightarrow> byte list" where
  "PutUint64 w = map (\<lambda>i. ucast (drop_bit (8 * i) w)) [7, 6, 5, 4, 3, 2, 1, 0]"

definition cosi_cache_key ::
  "crypto_ops \<Rightarrow> hash \<Rightarrow> CosiSignature \<Rightarrow> PublicKey list \<Rightarrow> int \<Rightarrow> string" where
  "cosi_cache_key ops snap sig publics threshold =
     (let key = MsgpackMarshalPanic ops sig;
          key = snap @ key;
          key = foldl (\<lambda>key pub. key @ pub_Key ops pub) key publics;
          tbuf = PutUint64 (word_of_int threshold);
          key = key @ tbuf
      in ''KERNEL:COSISIGNATURE:'' @ hash_String ops (NewHash ops key))"

definition override_snap :: string where
  "override_snap = ''b3ea56de6124ad2f3ad1d48f2aff8338b761e62bcde6f2f0acba63a32dd8eecc''"

definition override_sig :: string where
  "override_sig = ''dbb0347be24ecb8de3d66631d347fde724ff92e22e1f45deeb8b5d843fd62da39ca8e39de9f35f1e0f7336d4686917983470c098edc91f456d577fb18069620f000000003fdfe712''"

definition CacheVerifyCosi ::
  "crypto_ops \<Rightarrow> cache_store \<Rightarrow> hash \<Rightarrow> CosiSignature \<Rightarrow> PublicKey list \<Rightarrow> int
     \<Rightarrow> bool \<times> cache_store \<times> cache_event list" where
  "CacheVerifyCosi ops store snap sig publics threshold =
     (if hash_String ops snap = override_snap \<and> sig_String ops sig = override_sig
      then (True, store, [])
      else
        let hash = cosi_cache_key ops snap sig publics threshold;
            val = cacheStore_Get store hash
        in if length val = 1 then (hd val = 1, store, [CacheGet hash])
           else if FullVerify ops sig publics threshold snap
           then (True, cacheStore_Set store hash [1],
                 [CacheGet hash, FullVerifyCall sig publics threshold snap, CacheSet hash [1]])
           else (False, cacheStore_Set store hash [0],
                 [CacheGet hash, FullVerifyCall sig publics threshold snap, CacheSet hash [0]]))"

text \<open>A sequence of calls against the same cache store, one after the other.\<close>

record cosi_call =
  call_snap :: hash
  call_sig :: CosiSignature
  call_publics :: "PublicKey list"
  call_threshold :: int

definition call_CacheVerifyCosi ::
  "crypto_ops \<Rightarrow> cache_store \<Rightarrow> cosi_call \<Rightarrow> bool \<times> cache_store \<times> cache_event list" where
  "call_CacheVerifyCosi ops store c =
     CacheVerifyCosi ops store (call_snap c) (call_sig c) (call_publics c) (call_threshold c)"

definition call_key :: "crypto_ops \<Rightarrow> cosi_call \<Rightarrow> string" where
  "call_key ops c =
     cosi_cache_key ops (call_snap c) (call_sig c) (call_publics c) (call_threshold c)"

definition call_override :: "crypto_ops \<Rightarrow> cosi_call \<Rightarrow> bool" where
  "call_override ops c =
     (hash_String ops (call_snap c) = override_snap \<and> sig_String ops (call_sig c) = override_sig)"

text \<open>The result and the events of each call, and the store after the last one.\<close>

fun CacheVerifyCosi_calls ::
  "crypto_ops \<Rightarrow> cache_store \<Rightarrow> cosi_call list
     \<Rightarrow> (bool \<times> cache_event list) list \<times> cache_store" where
  "CacheVerifyCosi_calls ops store [] = ([], store)"
| "CacheVerifyCosi_calls ops store (c # cs) =
     (case call_CacheVerifyCosi ops store c of
        (r, store', evs) \<Rightarrow>
          (case CacheVerifyCosi_calls ops store' cs of
             (outs, store'') \<Rightarrow> ((r, evs) # outs, store'')))"

text \<open>How often the verifier was invoked for arguments with cache key \<open>k\<close>.\<close>

fun verifies_key :: "crypto_ops \<Rightarrow> string \<Rightarrow> cache_event \<Rightarrow> bool" where
  "verifies_key ops k (FullVerifyCall sig publics threshold snap) =
     (cosi_cache_key ops snap sig publics threshold = k)"
| "verifies_key ops k (CacheGet k') = False"
| "verifies_key ops k (CacheSet k' v) = False"

definition FullVerify_count :: "crypto_ops \<Rightarrow> string \<Rightarrow> cache_event list \<Rightarrow> nat" where
  "FullVerify_count ops k evs = length (filter (verifies_key ops k) evs)"

subsection \<open>Snapshots, rounds, the graph\<close>

record RoundLink =
  Self :: hash
  External :: hash

text \<open>
  \<open>common.Snapshot\<close>. \<open>References\<close> and \<open>Signature\<close> are pointers; \<open>Signatures\<close> is the
  signature list of a legacy (version 0) snapshot.
\<close>

record Snapshot =
  Version :: nat
  NodeId :: hash
  Transaction :: hash
  References :: "RoundLink option"
  RoundNumber :: u64
  Timestamp :: u64
  Signatures :: "Signature list"
  Signature :: "CosiSignature option"
  Hash :: hash
  Commitment :: "Commitment option"

text \<open>\<open>common.VersionedTransaction\<close>: the handlers only ask for its type.\<close>

record VersionedTransaction =
  TransactionType :: nat
  tx_PayloadHash :: hash

text \<open>
  \<open>common.Node\<close>, a consensus node: the handlers read its accept time and its signer's
  public spend key.
\<close>

record CNode =
  Signer_PublicSpendKey :: PublicKey
  cn_Timestamp :: u64

record CacheRound =
  cr_NodeId :: hash
  cr_Number :: u64
  cr_Timestamp :: u64
  cr_References :: "RoundLink option"
  cr_Snapshots :: "Snapshot list"

record FinalRound =
  fr_NodeId :: hash
  fr_Number :: u64
  fr_Start :: u64
  fr_End :: u64
  fr_Hash :: hash

text \<open>\<open>common.Round\<close>, what the persistent store's \<open>ReadRound\<close> yields.\<close>

record Round =
  r_Hash :: hash
  r_NodeId :: hash
  r_Number :: u64
  r_Timestamp :: u64

text \<open>
  \<open>node.Graph\<close>. A Go map of pointers is a partial function; a map of slices or of numbers
  yields the zero value (the empty slice, 0) at an absent key.
\<close>

record RoundGraph =
  CacheRound :: "hash \<rightharpoonup> CacheRound"
  FinalRound :: "hash \<rightharpoonup> FinalRound"
  RoundHistory :: "hash \<Rightarrow> FinalRound list"
  ReverseRoundLinks :: "hash \<Rightarrow> u64"
  GraphTimestamp :: u64

subsection \<open>Aggregators, verifiers, actions\<close>

text \<open>
  The Go maps of an aggregator whose length the handlers take are association lists with
  one entry for each key, updated with \<open>AList.update\<close>; \<open>len\<close> is the length of the list.
\<close>

record CosiAggregator =
  agg_Snapshot :: Snapshot
  agg_Transaction :: VersionedTransaction
  agg_WantTxs :: "hash \<rightharpoonup> bool"
  agg_Commitments :: "(int \<times> Commitment option) list"
  agg_Responses :: "(int \<times> Response) list"
  agg_committed :: "hash \<rightharpoonup> bool"
  agg_responsed :: "(hash \<times> bool) list"

record CosiVerifier =
  v_Snapshot :: Snapshot
  v_random :: PrivateKey

definition CosiActionSelfResponse :: int where "CosiActionSelfResponse = 2"
definition CosiActionExternalAnnouncement :: int where "CosiActionExternalAnnouncement = 3"
definition CosiActionExternalChallenge :: int where "CosiActionExternalChallenge = 4"

record CosiAction =
  m_Action :: int
  m_PeerId :: hash
  m_SnapshotHash :: hash
  m_Snapshot :: "Snapshot option"
  m_Commitment :: "Commitment option"
  m_Signature :: "CosiSignature option"
  m_Response :: "Response option"
  m_Transaction :: "VersionedTransaction option"
  m_WantTx :: bool

subsection \<open>Effects on the collaborators\<close>

text \<open>
  Every call that writes to the peer, to the persistent store, to the transaction cache
  or to a part of the node whose code is elsewhere is an event of the log, with its
  arguments, in the order the handler makes the calls.
\<close>

datatype event =
    SendSnapshotAnnouncementMessage hash Snapshot Key
  | SendSnapshotCommitmentMessage hash hash Key bool
  | SendTransactionChallengeMessage hash hash CosiSignature "VersionedTransaction option"
  | SendSnapshotResponseMessage hash hash Response
  | SendSnapshotFinalizationMessage hash Snapshot
  | SendTransactionToPeer hash hash
  | QueueAppendSnapshot hash Snapshot bool
  | NodeQueueAppendSnapshot hash Snapshot bool
  | WriteSnapshot Snapshot u64
  | StartNewRound hash u64 "RoundLink option" u64
  | UpdateEmptyHeadRound hash u64 "RoundLink option"
  | CachePutTransaction hash VersionedTransaction
  | FinalizeNodeAcceptSnapshot Snapshot
  | ReloadConsensusNodesList Snapshot VersionedTransaction
  | UpdateFinalCache hash
  | TryToStartNewRound Snapshot
  | Sleep
  | CacheEvent cache_event

subsection \<open>The node\<close>

text \<open>
  \<open>ConsensusNodes\<close> is a Go map that the handlers also range over; it is an association
  list here, and a range visits it in the order of the list.
\<close>

record Node =
  IdForNetwork :: hash
  networkId :: hash
  ConsensusIndex :: int
  ConsensusNodes :: "(hash \<times> CNode) list"
  SortedConsensusNodes :: "hash list"
  ConsensusPledging :: "CNode option"
  Signer_PrivateSpendKey :: PrivateKey
  genesisNodesMap :: "hash \<Rightarrow> bool"
  CosiAggregators :: "hash \<rightharpoonup> CosiAggregator"
  CosiVerifiers :: "hash \<rightharpoonup> CosiVerifier"
  Graph :: RoundGraph
  cacheStore :: cache_store
  log :: "event list"

subsection \<open>Constants and collaborators\<close>

text \<open>The constants of the config and common packages that the handlers use.\<close>

record config =
  SnapshotVersion :: nat
  SnapshotRoundGap :: u64
  SnapshotReferenceThreshold :: u64
  SnapshotSyncRoundThreshold :: u64
  KernelNodeAcceptPeriodMinimum :: u64
  TransactionTypeNodeAccept :: nat

text \<open>
  The methods of the node, of the rounds, of the persistent store, of the peer and of the
  clock whose code is elsewhere. A method that only reads is a function of the call's
  arguments. A Go error is a \<open>string option\<close> (\<open>None\<close> is \<open>nil\<close>), and a Go result
  \<open>(value, err)\<close> is a pair. \<open>effect_error\<close> is the error, if any, that the collaborator
  returns for a logged call.
\<close>

record kernel_ops =
  PayloadHash :: "Snapshot \<Rightarrow> hash"
  cn_IdForNetwork :: "CNode \<Rightarrow> hash \<Rightarrow> hash"
  ConsensusKeys :: "u64 \<Rightarrow> PublicKey list"
  ConsensusThreshold :: "u64 \<Rightarrow> int"
  ConsensusRemovedRecently :: "u64 \<Rightarrow> CNode option"
  CheckCatchUpWithPeers :: bool
  CheckBroadcastedToPeers :: bool
  checkCacheSnapshotTransaction ::
    "Snapshot \<Rightarrow> VersionedTransaction option \<times> bool \<times> string option"
  checkFinalSnapshotTransaction :: "Snapshot \<Rightarrow> VersionedTransaction option \<times> string option"
  determinBestRound :: "hash \<Rightarrow> u64 \<Rightarrow> FinalRound option"
  tryToStartNewRound :: "Snapshot \<Rightarrow> bool \<times> string option"
  ReadRound :: "hash \<Rightarrow> Round option \<times> string option"
  ReadLink :: "hash \<Rightarrow> hash \<Rightarrow> u64 \<times> string option"
  ComputeRoundHash :: "hash \<Rightarrow> u64 \<Rightarrow> Snapshot list \<Rightarrow> u64 \<times> u64 \<times> hash"
  Gap :: "CacheRound \<Rightarrow> u64 \<times> u64"
  ValidateSnapshot :: "CacheRound \<Rightarrow> Snapshot \<Rightarrow> bool \<Rightarrow> string option \<times> CacheRound"
  clock_Now :: "nat \<Rightarrow> u64"
  TopoCounter_Next :: u64
  NewPrivateKeyFromReader :: PrivateKey
  effect_error :: "event \<Rightarrow> string option"

record env =
  crypto :: crypto_ops
  cfg :: config
  kernel :: kernel_ops

text \<open>A call returns, or the goroutine panics.\<close>

datatype 'a outcome = Returned 'a | Panicked string

definition nil_dereference :: string where
  "nil_dereference = ''invalid memory address or nil pointer dereference''"

definition index_out_of_range :: string where
  "index_out_of_range = ''index out of range''"

definition perform :: "env \<Rightarrow> Node \<Rightarrow> event \<Rightarrow> string option \<times> Node" where
  "perform e node ev = (effect_error (kernel e) ev, node\<lparr>log := log node @ [ev]\<rparr>)"

subsection \<open>Verifying a finalization\<close>

definition node_CacheVerifyCosi ::
  "env \<Rightarrow> Node \<Rightarrow> hash \<Rightarrow> CosiSignature \<Rightarrow> PublicKey list \<Rightarrow> int \<Rightarrow> bool \<times> Node" where
  "node_CacheVerifyCosi e node snap sig publics threshold =
     (case CacheVerifyCosi (crypto e) (cacheStore node) snap sig publics threshold of
        (r, store', evs) \<Rightarrow>
          (r, node\<lparr>cacheStore := store', log := log node @ map CacheEvent evs\<rparr>))"

definition checkInitialAcceptSnapshotWeak :: "env \<Rightarrow> Node \<Rightarrow> Snapshot \<Rightarrow> bool" where
  "checkInitialAcceptSnapshotWeak e node s =
     (case ConsensusPledging node of
        None \<Rightarrow> False
      | Some pledge \<Rightarrow>
          if genesisNodesMap node (NodeId s) then False
          else if NodeId s \<noteq> cn_IdForNetwork (kernel e) pledge (networkId node) then False
          else RoundNumber s = 0)"

definition checkInitialAcceptSnapshot ::
  "env \<Rightarrow> Node \<Rightarrow> Snapshot \<Rightarrow> VersionedTransaction \<Rightarrow> bool" where
  "checkInitialAcceptSnapshot e node s tx =
     (if FinalRound (Graph node) (NodeId s) \<noteq> None then False
      else checkInitialAcceptSnapshotWeak e node s
           \<and> TransactionType tx = TransactionTypeNodeAccept (cfg e))"

text \<open>
  \<open>append(publics, node.ConsensusPledging.Signer.PublicSpendKey)\<close>. The callers append
  only after an initial-accept check has passed, which a node without a pledging node
  never passes.
\<close>

definition append_pledging :: "Node \<Rightarrow> PublicKey list \<Rightarrow> PublicKey list" where
  "append_pledging node publics =
     (case ConsensusPledging node of
        None \<Rightarrow> publics
      | Some pledge \<Rightarrow> publics @ [Signer_PublicSpendKey pledge])"

definition legacyVerifyFinalization :: "env \<Rightarrow> u64 \<Rightarrow> Signature list \<Rightarrow> bool" where
  "legacyVerifyFinalization e timestamp sigs =
     (int (length sigs) \<ge> ConsensusThreshold (kernel e) timestamp)"

text \<open>
  The loop \<open>for i := range publics\<close> of \<open>verifyFinalization\<close>, over the indices still to
  visit: \<open>pwr\<close> is \<open>publics[:i]\<close>, the removed node's key, \<open>publics[i:]\<close>.
\<close>

fun verifyFinalization_removed ::
  "env \<Rightarrow> Node \<Rightarrow> Snapshot \<Rightarrow> CosiSignature \<Rightarrow> PublicKey list \<Rightarrow> PublicKey \<Rightarrow> int
     \<Rightarrow> nat list \<Rightarrow> bool \<times> Node" where
  "verifyFinalization_removed e node s sig publics rr base [] = (False, node)"
| "verifyFinalization_removed e node s sig publics rr base (i # is) =
     (let pwr = [] @ take i publics;
          pwr = pwr @ [rr];
          pwr = pwr @ drop i publics
      in case node_CacheVerifyCosi e node (PayloadHash (kernel e) s) sig pwr base of
           (True, node') \<Rightarrow> (True, node')
         | (False, node') \<Rightarrow> verifyFinalization_removed e node' s sig publics rr base is)"

definition verifyFinalization :: "env \<Rightarrow> Node \<Rightarrow> Snapshot \<Rightarrow> bool \<times> Node" where
  "verifyFinalization e node s =
     (if Version s = 0 then (legacyVerifyFinalization e (Timestamp s) (Signatures s), node)
      else
        case Signature s of
          None \<Rightarrow> (False, node)
        | Some sig \<Rightarrow>
            if Version s \<noteq> SnapshotVersion (cfg e) then (False, node)
            else
              let publics = ConsensusKeys (kernel e) (Timestamp s);
                  publics = (if checkInitialAcceptSnapshotWeak e node s
                             then append_pledging node publics else publics);
                  base = ConsensusThreshold (kernel e) (Timestamp s)
              in case node_CacheVerifyCosi e node (PayloadHash (kernel e) s) sig publics base of
                   (True, node') \<Rightarrow> (True, node')
                 | (False, node') \<Rightarrow>
                     (case ConsensusRemovedRecently (kernel e) (Timestamp s) of
                        None \<Rightarrow> (False, node')
                      | Some rr \<Rightarrow>
                          verifyFinalization_removed e node' s sig publics
                            (Signer_PublicSpendKey rr) base [0..<length publics]))"

subsection \<open>Round operations\<close>

text \<open>
  Modelled from the spec: \<open>CacheRound.asFinal\<close>, whose code is not among the sources at
  hand. It seals a cache round into a final round of the same node and number, and
  yields \<open>nil\<close> when the cache holds no snapshots; start, end and hash come from the
  round hash computation over the ordered snapshots.
\<close>

definition asFinal :: "env \<Rightarrow> CacheRound \<Rightarrow> FinalRound option" where
  "asFinal e c =
     (if length (cr_Snapshots c) = 0 then None
      else case ComputeRoundHash (kernel e) (cr_NodeId c) (cr_Number c) (cr_Snapshots c) of
             (start, end, hash) \<Rightarrow>
               Some \<lparr>fr_NodeId = cr_NodeId c, fr_Number = cr_Number c,
                     fr_Start = start, fr_End = end, fr_Hash = hash\<rparr>)"

text \<open>
  The checks of \<open>startNewRound\<close> that run only for a snapshot that is not finalized: the
  error they return, if any. \<open>node.Graph.FinalRound[external.NodeId].Number\<close> dereferences
  the map's entry.
\<close>

definition startNewRound_not_finalized ::
  "env \<Rightarrow> Node \<Rightarrow> Snapshot \<Rightarrow> Round \<Rightarrow> string option outcome" where
  "startNewRound_not_finalized e node s external =
     (case FinalRound (Graph node) (r_NodeId external) of
        None \<Rightarrow> Panicked nil_dereference
      | Some head \<Rightarrow>
          if r_Number external + SnapshotSyncRoundThreshold (cfg e) < fr_Number head
          then Returned (Some ''external reference too early'')
          else if r_Timestamp external > Timestamp s
          then Returned (Some ''external reference later than snapshot time'')
          else
            let threshold = r_Timestamp external
                  + SnapshotReferenceThreshold (cfg e) * SnapshotRoundGap (cfg e) * 64
            in case determinBestRound (kernel e) (NodeId s) (Timestamp s) of
                 None \<Rightarrow> Returned None
               | Some best \<Rightarrow>
                   if threshold < fr_Start best
                   then Returned (Some ''external reference too early'')
                   else Returned None)"

text \<open>The end of \<open>startNewRound\<close>, from \<open>ReadLink\<close> on.\<close>

definition startNewRound_links ::
  "env \<Rightarrow> Node \<Rightarrow> Snapshot \<Rightarrow> FinalRound \<Rightarrow> Round
     \<Rightarrow> (FinalRound option \<times> bool \<times> string option) outcome \<times> Node" where
  "startNewRound_links e node s final external =
     (case ReadLink (kernel e) (NodeId s) (r_NodeId external) of
        (link, err) \<Rightarrow>
          if r_Number external < link then (Returned (None, False, err), node)
          else if r_NodeId external = IdForNetwork node
          then
            let l = ReverseRoundLinks (Graph node) (NodeId s)
            in if r_Number external < l
               then (Returned (None, False, Some ''external reverse reference''), node)
               else (Returned (Some final, False, err),
                     node\<lparr>Graph := (Graph node)\<lparr>ReverseRoundLinks :=
                       (ReverseRoundLinks (Graph node))(NodeId s := r_Number external)\<rparr>\<rparr>)
          else (Returned (Some final, False, err), node))"

definition startNewRound ::
  "env \<Rightarrow> Node \<Rightarrow> Snapshot \<Rightarrow> CacheRound \<Rightarrow> bool
     \<Rightarrow> (FinalRound option \<times> bool \<times> string option) outcome \<times> Node" where
  "startNewRound e node s cache allowDummy =
     (if RoundNumber s \<noteq> cr_Number cache + 1 then (Panicked ''should never be here'', node)
      else
        case asFinal e cache of
          None \<Rightarrow>
            (Returned (None, False, Some ''self cache snapshots not collected yet''), node)
        | Some final \<Rightarrow>
            (case References s of
               None \<Rightarrow> (Panicked nil_dereference, node)
             | Some refs \<Rightarrow>
                 if Self refs \<noteq> fr_Hash final
                 then (Returned (None, False, Some ''self cache snapshots not match yet''), node)
                 else
                   case verifyFinalization e node s of
                     (finalized, node) \<Rightarrow>
                       (case ReadRound (kernel e) (External refs) of
                          (ext, Some err) \<Rightarrow> (Returned (None, False, Some err), node)
                        | (None, None) \<Rightarrow>
                            if finalized \<and> allowDummy
                            then (Returned (Some final, True, None), node)
                            else (Returned (None, False, Some ''external round not collected yet''),
                                  node)
                        | (Some external, None) \<Rightarrow>
                            if fr_NodeId final = r_NodeId external
                            then (Returned (None, False, None), node)
                            else if \<not> genesisNodesMap node (r_NodeId external)
                                    \<and> r_Number external < 7 + SnapshotReferenceThreshold (cfg e)
                            then (Returned (None, False, None), node)
                            else if finalized
                            then startNewRound_links e node s final external
                            else
                              case startNewRound_not_finalized e node s external of
                                Panicked p \<Rightarrow> (Panicked p, node)
                              | Returned (Some err) \<Rightarrow>
                                  (Returned (None, False, Some err), node)
                              | Returned None \<Rightarrow>
                                  startNewRound_links e node s final external)))"

text \<open>
  \<open>assignNewGraphRound\<close> works on the graph of the node. \<open>history[len(history)-1]\<close> on an
  empty history is an index out of range.
\<close>

definition assignNewGraphRound ::
  "RoundGraph \<Rightarrow> FinalRound \<Rightarrow> CacheRound \<Rightarrow> unit outcome \<times> RoundGraph" where
  "assignNewGraphRound g final cache =
     (if fr_NodeId final \<noteq> cr_NodeId cache then (Panicked ''should never be here'', g)
      else
        let g = g\<lparr>CacheRound := (CacheRound g)(fr_NodeId final \<mapsto> cache)\<rparr>;
            g = g\<lparr>FinalRound := (FinalRound g)(fr_NodeId final \<mapsto> final)\<rparr>;
            history = RoundHistory g (fr_NodeId final)
        in if length history = 0 \<and> fr_Number final = 0
           then (Returned (),
                 g\<lparr>RoundHistory := (RoundHistory g)(fr_NodeId final := history @ [final])\<rparr>)
           else if length history = 0 then (Panicked index_out_of_range, g)
           else
             let n = fr_Number (last history)
             in if n > fr_Number final then (Panicked ''should never be here'', g)
                else if n + 1 < fr_Number final then (Panicked ''should never be here'', g)
                else if n + 1 = fr_Number final
                then (Returned (),
                      g\<lparr>RoundHistory := (RoundHistory g)(fr_NodeId final := history @ [final])\<rparr>)
                else (Returned (), g))"

definition node_assignNewGraphRound ::
  "Node \<Rightarrow> FinalRound \<Rightarrow> CacheRound \<Rightarrow> unit outcome \<times> Node" where
  "node_assignNewGraphRound node final cache =
     (case assignNewGraphRound (Graph node) final cache of
        (r, g) \<Rightarrow> (r, node\<lparr>Graph := g\<rparr>))"

subsection \<open>Invariant of the round history\<close>

text \<open>
  The head of a node's chain and its history agree: where the graph has a final round
  for a node, the node's history is not empty and ends at that round's number.
\<close>

definition history_tracks_final :: "RoundGraph \<Rightarrow> hash \<Rightarrow> bool" where
  "history_tracks_final g n =
     (case FinalRound g n of
        None \<Rightarrow> True
      | Some f \<Rightarrow> RoundHistory g n \<noteq> [] \<and> fr_Number (last (RoundHistory g n)) = fr_Number f)"

subsection \<open>Helpers of the handlers\<close>

definition getPeerConsensusNode :: "env \<Rightarrow> Node \<Rightarrow> hash \<Rightarrow> CNode option" where
  "getPeerConsensusNode e node peerId =
     (case ConsensusPledging node of
        None \<Rightarrow> map_of (ConsensusNodes node) peerId
      | Some n \<Rightarrow>
          if cn_IdForNetwork (kernel e) n (networkId node) = peerId then Some n
          else map_of (ConsensusNodes node) peerId)"

text \<open>Calls made one after the other, up to the first that returns an error.\<close>

fun perform_all :: "env \<Rightarrow> Node \<Rightarrow> event list \<Rightarrow> string option \<times> Node" where
  "perform_all e node [] = (None, node)"
| "perform_all e node (ev # evs) =
     (case perform e node ev of
        (Some err, node') \<Rightarrow> (Some err, node')
      | (None, node') \<Rightarrow> perform_all e node' evs)"

definition queueSnapshotOrPanic ::
  "env \<Rightarrow> Node \<Rightarrow> hash \<Rightarrow> Snapshot \<Rightarrow> string option outcome \<times> Node" where
  "queueSnapshotOrPanic e node peerId s =
     (case perform e node (QueueAppendSnapshot peerId s False) of
        (Some err, node') \<Rightarrow> (Panicked err, node')
      | (None, node') \<Rightarrow> (Returned None, node'))"

text \<open>\<open>&common.Snapshot{Version: ..., NodeId: ..., Transaction: ...}\<close>: the other fields are zero.\<close>

definition fresh_Snapshot :: "nat \<Rightarrow> hash \<Rightarrow> hash \<Rightarrow> Snapshot" where
  "fresh_Snapshot version nodeId transaction =
     \<lparr>Version = version, NodeId = nodeId, Transaction = transaction, References = None,
      RoundNumber = 0, Timestamp = 0, Signatures = [], Signature = None,
      Hash = replicate 32 0, Commitment = None\<rparr>"

definition clearAndQueueSnapshotOrPanic ::
  "env \<Rightarrow> Node \<Rightarrow> Snapshot \<Rightarrow> string option outcome \<times> Node" where
  "clearAndQueueSnapshotOrPanic e node s =
     (let node = node\<lparr>CosiVerifiers := (CosiVerifiers node)(Hash s := None)\<rparr>;
          node = node\<lparr>CosiAggregators := (CosiAggregators node)(Hash s := None)\<rparr>;
          node = node\<lparr>CosiAggregators := (CosiAggregators node)(Transaction s := None)\<rparr>
      in queueSnapshotOrPanic e node (IdForNetwork node)
           (fresh_Snapshot (SnapshotVersion (cfg e)) (NodeId s) (Transaction s)))"

text \<open>
  Modelled from the spec: \<open>RoundLink.Equal\<close>, whose code is not among the sources at
  hand, compares the two links field by field; both are pointers that it dereferences.
\<close>

definition References_Equal :: "RoundLink option \<Rightarrow> RoundLink option \<Rightarrow> bool outcome" where
  "References_Equal a b =
     (case a of
        None \<Rightarrow> Panicked nil_dereference
      | Some x \<Rightarrow>
          (case b of
             None \<Rightarrow> Panicked nil_dereference
           | Some y \<Rightarrow> Returned (Self x = Self y \<and> External x = External y)))"


text \<open>The index of the first entry of \<open>SortedConsensusNodes\<close> that equals the peer, if any.\<close>

fun index_of :: "hash list \<Rightarrow> hash \<Rightarrow> int \<Rightarrow> int option" where
  "index_of [] peerId i = None"
| "index_of (n # ns) peerId i = (if n = peerId then Some i else index_of ns peerId (i + 1))"

definition go_lookup :: "('k \<times> 'v option) list \<Rightarrow> 'k \<Rightarrow> 'v option" where
  "go_lookup m k = (case map_of m k of None \<Rightarrow> None | Some v \<Rightarrow> v)"

subsection \<open>The challenge handler\<close>



subsection \<open>The response handler\<close>

text \<open>
  The loop of \<open>cosiHandleResponse\<close> over \<open>SortedConsensusNodes\<close>: the peer's response is
  loaded against its commitment and placed in the signature of the aggregator's
  snapshot. The result is the error, if any, and the aggregator after the loop.
\<close>

definition cosiHandleResponse_aggregate ::
  "env \<Rightarrow> Node \<Rightarrow> CosiAction \<Rightarrow> CosiAggregator \<Rightarrow> string option outcome \<times> CosiAggregator" where
  "cosiHandleResponse_aggregate e node m agg =
     (case index_of (SortedConsensusNodes node) (m_PeerId m) 0 of
        None \<Rightarrow> (Returned None, agg)
      | Some i \<Rightarrow>
          let commitment = go_lookup (agg_Commitments agg) i
          in case Signature (agg_Snapshot agg) of
               None \<Rightarrow> (Panicked nil_dereference, agg)
             | Some cosi \<Rightarrow>
                 (case LoadResponseSignature (crypto e) cosi commitment (m_Response m) of
                    (sig, Some err) \<Rightarrow> (Returned (Some err), agg)
                  | (sig, None) \<Rightarrow>
                      (case AggregateSignature (crypto e) cosi i sig of
                         (cosi', err) \<Rightarrow>
                           (Returned err,
                            agg\<lparr>agg_Snapshot := (agg_Snapshot agg)\<lparr>Signature := Some cosi'\<rparr>\<rparr>))))"

text \<open>The events of the two loops over \<open>ConsensusNodes\<close> that announce a finalization.\<close>

definition finalization_messages :: "Node \<Rightarrow> Snapshot \<Rightarrow> event list" where
  "finalization_messages node s =
     map (\<lambda>(peer, cn). SendSnapshotFinalizationMessage peer s) (ConsensusNodes node)"

definition transaction_and_finalization_messages :: "Node \<Rightarrow> CosiAggregator \<Rightarrow> event list" where
  "transaction_and_finalization_messages node agg =
     concat (map (\<lambda>(peer, cn).
        (if map_of (agg_responsed agg) peer = Some True then []
         else [SendTransactionToPeer peer (Transaction (agg_Snapshot agg))])
        @ [SendSnapshotFinalizationMessage peer (agg_Snapshot agg)]) (ConsensusNodes node))"

text \<open>\<open>cosiHandleResponse\<close> once the aggregated signature has passed \<open>CacheVerifyCosi\<close>.\<close>

definition cosiHandleResponse_finalize ::
  "env \<Rightarrow> Node \<Rightarrow> CosiAggregator \<Rightarrow> VersionedTransaction \<Rightarrow> string option outcome \<times> Node" where
  "cosiHandleResponse_finalize e node agg tx =
     (let s = agg_Snapshot agg
      in if checkInitialAcceptSnapshot e node s tx
         then
           case perform e node (FinalizeNodeAcceptSnapshot s) of
             (Some err, node') \<Rightarrow> (Returned (Some err), node')
           | (None, node') \<Rightarrow>
               (case perform_all e node' (finalization_messages node' s) of
                  (Some err, node'') \<Rightarrow> (Returned (Some err), node'')
                | (None, node'') \<Rightarrow>
                    (case perform e node'' (ReloadConsensusNodesList s tx) of
                       (err, node''') \<Rightarrow> (Returned err, node''')))
         else
           case CacheRound (Graph node) (NodeId s) of
             None \<Rightarrow> (Panicked nil_dereference, node)
           | Some cache \<Rightarrow>
               if RoundNumber s > cr_Number cache then (Panicked ''should never be here'', node)
               else if RoundNumber s < cr_Number cache then clearAndQueueSnapshotOrPanic e node s
               else
                 case References_Equal (References s) (cr_References cache) of
                   Panicked p \<Rightarrow> (Panicked p, node)
                 | Returned False \<Rightarrow> clearAndQueueSnapshotOrPanic e node s
                 | Returned True \<Rightarrow>
                     (case ValidateSnapshot (kernel e) cache s False of
                        (Some err, cache') \<Rightarrow> clearAndQueueSnapshotOrPanic e node s
                      | (None, cache') \<Rightarrow>
                          (case perform e node (WriteSnapshot s (TopoCounter_Next (kernel e))) of
                             (Some err, node') \<Rightarrow> (Panicked err, node')
                           | (None, node') \<Rightarrow>
                               (case ValidateSnapshot (kernel e) cache' s True of
                                  (Some err, cache'') \<Rightarrow>
                                    (Panicked ''should never be here'', node')
                                | (None, cache'') \<Rightarrow>
                                    let node' = node'\<lparr>Graph := (Graph node')\<lparr>CacheRound :=
                                          (CacheRound (Graph node'))(NodeId s \<mapsto> cache'')\<rparr>\<rparr>
                                    in case perform_all e node'
                                              (transaction_and_finalization_messages node' agg) of
                                         (Some err, node'') \<Rightarrow> (Returned (Some err), node'')
                                       | (None, node'') \<Rightarrow>
                                           (case perform e node''
                                                   (ReloadConsensusNodesList s tx) of
                                              (err, node''') \<Rightarrow> (Returned err, node'''))))))"

text \<open>
  \<open>cosiHandleResponse\<close> from the loop on. The aggregator is a pointer held by the map:
  what the handler writes to it stays in the map, also when the handler returns early.
\<close>

definition cosiHandleResponse_respond ::
  "env \<Rightarrow> Node \<Rightarrow> CosiAction \<Rightarrow> CosiAggregator \<Rightarrow> VersionedTransaction \<Rightarrow> int
     \<Rightarrow> string option outcome \<times> Node" where
  "cosiHandleResponse_respond e node m agg tx base =
     (case cosiHandleResponse_aggregate e node m agg of
        (Panicked p, agg') \<Rightarrow>
          (Panicked p, node\<lparr>CosiAggregators := (CosiAggregators node)(m_SnapshotHash m \<mapsto> agg')\<rparr>)
      | (Returned (Some err), agg') \<Rightarrow>
          (Returned (Some err),
           node\<lparr>CosiAggregators := (CosiAggregators node)(m_SnapshotHash m \<mapsto> agg')\<rparr>)
      | (Returned None, agg') \<Rightarrow>
          let agg' = agg'\<lparr>agg_responsed := AList.update (m_PeerId m) True (agg_responsed agg')\<rparr>;
              node = node\<lparr>CosiAggregators := (CosiAggregators node)(m_SnapshotHash m \<mapsto> agg')\<rparr>;
              s = agg_Snapshot agg'
          in if length (agg_responsed agg') \<noteq> length (agg_Commitments agg')
             then (Returned None, node)
             else
               let publics = ConsensusKeys (kernel e) (Timestamp s);
                   publics = (if checkInitialAcceptSnapshot e node s tx
                              then append_pledging node publics else publics)
               in case Signature s of
                    None \<Rightarrow> (Panicked nil_dereference, node)
                  | Some cosi \<Rightarrow>
                      (case node_CacheVerifyCosi e node (m_SnapshotHash m) cosi publics base of
                         (False, node') \<Rightarrow> (Returned None, node')
                       | (True, node') \<Rightarrow> cosiHandleResponse_finalize e node' agg' tx))"

definition cosiHandleResponse ::
  "env \<Rightarrow> Node \<Rightarrow> CosiAction \<Rightarrow> string option outcome \<times> Node" where
  "cosiHandleResponse e node m =
     (if map_of (ConsensusNodes node) (m_PeerId m) = None then (Returned None, node)
      else
        case CosiAggregators node (m_SnapshotHash m) of
          None \<Rightarrow> (Returned None, node)
        | Some agg \<Rightarrow>
            if Hash (agg_Snapshot agg) \<noteq> m_SnapshotHash m then (Returned None, node)
            else if map_of (agg_responsed agg) (m_PeerId m) = Some True then (Returned None, node)
            else if \<not> CheckCatchUpWithPeers (kernel e)
                    \<and> \<not> checkInitialAcceptSnapshotWeak e node (agg_Snapshot agg)
            then (Returned None, node)
            else if length (agg_responsed agg) \<ge> length (agg_Commitments agg)
            then (Returned None, node)
            else
              let base = ConsensusThreshold (kernel e) (Timestamp (agg_Snapshot agg))
              in if int (length (agg_Commitments agg)) < base then (Returned None, node)
                 else
                   case checkCacheSnapshotTransaction (kernel e) (agg_Snapshot agg) of
                     (tx, finalized, Some err) \<Rightarrow> (Returned None, node)
                   | (None, finalized, None) \<Rightarrow> (Returned None, node)
                   | (Some tx, finalized, None) \<Rightarrow>
                       if finalized then (Returned None, node)
                       else cosiHandleResponse_respond e node m agg tx base)"

subsection \<open>The handler of an external announcement\<close>

text \<open>The end of \<open>cosiHandleAnnouncement\<close>: the round is assigned, the snapshot validated,
  the verifier registered and the commitment sent.\<close>

definition cosiHandleAnnouncement_commit ::
  "env \<Rightarrow> Node \<Rightarrow> Snapshot \<Rightarrow> VersionedTransaction option \<Rightarrow> CosiVerifier
     \<Rightarrow> FinalRound \<Rightarrow> CacheRound \<Rightarrow> string option outcome \<times> Node" where
  "cosiHandleAnnouncement_commit e node s tx v final cache =
     (case node_assignNewGraphRound node final cache of
        (Panicked p, node') \<Rightarrow> (Panicked p, node')
      | (Returned u, node') \<Rightarrow>
          (case ValidateSnapshot (kernel e) cache s False of
             (Some err, cache') \<Rightarrow> (Returned None, node')
           | (None, cache') \<Rightarrow>
               let node' = node'\<lparr>CosiVerifiers := (CosiVerifiers node')(Hash s \<mapsto> v)\<rparr>
               in case perform e node'
                         (SendSnapshotCommitmentMessage (NodeId s) (Hash s)
                            (priv_Public (crypto e) (v_random v)) (tx = None)) of
                    (err, node'') \<Rightarrow> (Returned err, node'')))"

text \<open>The branch for a snapshot of the cache round's number whose references differ.\<close>

definition cosiHandleAnnouncement_references ::
  "env \<Rightarrow> Node \<Rightarrow> CosiAction \<Rightarrow> Snapshot \<Rightarrow> FinalRound \<Rightarrow> CacheRound
     \<Rightarrow> string option outcome \<times> Node" where
  "cosiHandleAnnouncement_references e node m s final cache =
     (if length (cr_Snapshots cache) > 0 then (Returned None, node)
      else
        case References s of
          None \<Rightarrow> (Panicked nil_dereference, node)
        | Some srefs \<Rightarrow>
            (case cr_References cache of
               None \<Rightarrow> (Panicked nil_dereference, node)
             | Some crefs \<Rightarrow>
                 if Self srefs \<noteq> Self crefs then (Returned None, node)
                 else
                   case ReadRound (kernel e) (External srefs) of
                     (ext, Some err) \<Rightarrow> (Returned (Some err), node)
                   | (None, None) \<Rightarrow> (Returned None, node)
                   | (Some external, None) \<Rightarrow>
                       (case ReadLink (kernel e) (cr_NodeId cache) (r_NodeId external) of
                          (link, Some err) \<Rightarrow> (Returned (Some err), node)
                        | (link, None) \<Rightarrow>
                            if r_Number external < link then (Returned None, node)
                            else
                              let cache = cache\<lparr>cr_References :=
                                    Some \<lparr>Self = Self srefs, External = External srefs\<rparr>\<rparr>
                              in case perform e node
                                        (UpdateEmptyHeadRound (cr_NodeId cache) (cr_Number cache)
                                           (cr_References cache)) of
                                   (Some err, node') \<Rightarrow> (Panicked err, node')
                                 | (None, node') \<Rightarrow>
                                     (case node_assignNewGraphRound node' final cache of
                                        (Panicked p, node'') \<Rightarrow> (Panicked p, node'')
                                      | (Returned u, node'') \<Rightarrow>
                                          queueSnapshotOrPanic e node'' (m_PeerId m) s))))"

text \<open>The branch for a snapshot that opens the round after the cache round.\<close>

definition cosiHandleAnnouncement_next ::
  "env \<Rightarrow> Node \<Rightarrow> CosiAction \<Rightarrow> Snapshot \<Rightarrow> VersionedTransaction option \<Rightarrow> CosiVerifier
     \<Rightarrow> CacheRound \<Rightarrow> string option outcome \<times> Node" where
  "cosiHandleAnnouncement_next e node m s tx v cache =
     (case startNewRound e node s cache False of
        (Panicked p, node') \<Rightarrow> (Panicked p, node')
      | (Returned (round, dummy, Some err), node') \<Rightarrow> queueSnapshotOrPanic e node' (m_PeerId m) s
      | (Returned (None, dummy, None), node') \<Rightarrow> (Returned None, node')
      | (Returned (Some round, dummy, None), node') \<Rightarrow>
          let final = round;
              cache = \<lparr>cr_NodeId = NodeId s, cr_Number = RoundNumber s,
                       cr_Timestamp = Timestamp s, cr_References = References s,
                       cr_Snapshots = []\<rparr>
          in case perform e node'
                    (StartNewRound (cr_NodeId cache) (cr_Number cache) (cr_References cache)
                       (fr_Start final)) of
               (Some err, node'') \<Rightarrow> (Panicked err, node'')
             | (None, node'') \<Rightarrow> cosiHandleAnnouncement_commit e node'' s tx v final cache)"

text \<open>\<open>cosiHandleAnnouncement\<close> after the initial-accept branch: the round alignment.\<close>

definition cosiHandleAnnouncement_round ::
  "env \<Rightarrow> Node \<Rightarrow> CosiAction \<Rightarrow> Snapshot \<Rightarrow> VersionedTransaction option \<Rightarrow> CosiVerifier
     \<Rightarrow> string option outcome \<times> Node" where
  "cosiHandleAnnouncement_round e node m s tx v =
     (if RoundNumber s = 0 \<or> FinalRound (Graph node) (NodeId s) = None then (Returned None, node)
      else
        case CacheRound (Graph node) (NodeId s) of
          None \<Rightarrow> (Panicked nil_dereference, node)
        | Some cache \<Rightarrow>
            (case FinalRound (Graph node) (NodeId s) of
               None \<Rightarrow> (Panicked nil_dereference, node)
             | Some final \<Rightarrow>
                 if RoundNumber s < cr_Number cache then (Returned None, node)
                 else if RoundNumber s > cr_Number cache + 1
                 then queueSnapshotOrPanic e node (m_PeerId m) s
                 else if Timestamp s \<le> fr_Start final + SnapshotRoundGap (cfg e)
                 then (Returned None, node)
                 else if RoundNumber s = cr_Number cache
                 then
                   case References_Equal (References s) (cr_References cache) of
                     Panicked p \<Rightarrow> (Panicked p, node)
                   | Returned False \<Rightarrow> cosiHandleAnnouncement_references e node m s final cache
                   | Returned True \<Rightarrow>
                       if RoundNumber s = cr_Number cache + 1
                       then cosiHandleAnnouncement_next e node m s tx v cache
                       else cosiHandleAnnouncement_commit e node s tx v final cache
                 else if RoundNumber s = cr_Number cache + 1
                 then cosiHandleAnnouncement_next e node m s tx v cache
                 else cosiHandleAnnouncement_commit e node s tx v final cache))"

definition cosiHandleAnnouncement ::
  "env \<Rightarrow> Node \<Rightarrow> CosiAction \<Rightarrow> string option outcome \<times> Node" where
  "cosiHandleAnnouncement e node m =
     (if ConsensusIndex node < 0 \<or> \<not> CheckCatchUpWithPeers (kernel e) then (Returned None, node)
      else
        case getPeerConsensusNode e node (m_PeerId m) of
          None \<Rightarrow> (Returned None, node)
        | Some cn \<Rightarrow>
            (case m_Snapshot m of
               None \<Rightarrow> (Panicked nil_dereference, node)
             | Some s \<Rightarrow>
                 if cn_Timestamp cn + KernelNodeAcceptPeriodMinimum (cfg e) \<ge> Timestamp s
                    \<and> \<not> genesisNodesMap node (cn_IdForNetwork (kernel e) cn (networkId node))
                 then (Returned None, node)
                 else if NodeId s = IdForNetwork node \<or> NodeId s \<noteq> m_PeerId m
                 then (Panicked ''should never be here'', node)
                 else if Version s \<noteq> SnapshotVersion (cfg e) \<or> Signature s \<noteq> None
                         \<or> Timestamp s = 0
                 then (Returned None, node)
                 else
                   let threshold = SnapshotRoundGap (cfg e) * SnapshotReferenceThreshold (cfg e)
                   in if Timestamp s > clock_Now (kernel e) 0 + threshold
                      then (Returned None, node)
                      else if Timestamp s + threshold * 2 < GraphTimestamp (Graph node)
                      then (Returned None, node)
                      else
                        case checkCacheSnapshotTransaction (kernel e) s of
                          (tx, finalized, Some err) \<Rightarrow> (Returned None, node)
                        | (tx, finalized, None) \<Rightarrow>
                            if finalized then (Returned None, node)
                            else
                              let v = \<lparr>v_Snapshot = s,
                                       v_random = NewPrivateKeyFromReader (kernel e)\<rparr>
                              in if checkInitialAcceptSnapshotWeak e node s
                                 then
                                   let node' = node\<lparr>CosiVerifiers :=
                                         (CosiVerifiers node)(Hash s \<mapsto> v)\<rparr>
                                   in case perform e node'
                                             (SendSnapshotCommitmentMessage (NodeId s) (Hash s)
                                                (priv_Public (crypto e) (v_random v))
                                                (tx = None)) of
                                        (err, node'') \<Rightarrow> (Returned err, node'')
                                 else cosiHandleAnnouncement_round e node m s tx v))"

subsection \<open>The commitment handler\<close>



subsection \<open>The finalization handlers\<close>








subsection \<open>The self announcement\<close>








subsection \<open>The action loop\<close>





subsection \<open>Notions of the statements about a finalization\<close>

text \<open>The publics \<open>verifyFinalization\<close> builds for a snapshot, and the threshold check on
  them in the node's cache store.\<close>

definition finalization_publics :: "env \<Rightarrow> Node \<Rightarrow> Snapshot \<Rightarrow> PublicKey list" where
  "finalization_publics e node s =
     (let publics = ConsensusKeys (kernel e) (Timestamp s)
      in if checkInitialAcceptSnapshotWeak e node s then append_pledging node publics
         else publics)"

definition cosi_passes :: "env \<Rightarrow> Node \<Rightarrow> Snapshot \<Rightarrow> CosiSignature \<Rightarrow> PublicKey list \<Rightarrow> bool" where
  "cosi_passes e node s sig publics =
     fst (node_CacheVerifyCosi e node (PayloadHash (kernel e) s) sig publics
            (ConsensusThreshold (kernel e) (Timestamp s)))"

text \<open>The lists of publics that the loop of \<open>verifyFinalization\<close> can come to try.\<close>

definition tried_publics :: "env \<Rightarrow> Node \<Rightarrow> Snapshot \<Rightarrow> PublicKey list list" where
  "tried_publics e node s =
     (let publics = finalization_publics e node s
      in publics #
         (case ConsensusRemovedRecently (kernel e) (Timestamp s) of
            None \<Rightarrow> []
          | Some rr \<Rightarrow>
              map (\<lambda>i. take i publics @ [Signer_PublicSpendKey rr] @ drop i publics)
                [0..<length publics]))"

subsection \<open>Notions of the statements about the rounds\<close>

text \<open>Two states of the node that differ at most in the cache store and in the log.\<close>

definition same_but_cache :: "Node \<Rightarrow> Node \<Rightarrow> bool" where
  "same_but_cache node node' =
     (IdForNetwork node' = IdForNetwork node \<and> networkId node' = networkId node \<and>
      ConsensusIndex node' = ConsensusIndex node \<and> ConsensusNodes node' = ConsensusNodes node \<and>
      SortedConsensusNodes node' = SortedConsensusNodes node \<and>
      ConsensusPledging node' = ConsensusPledging node \<and>
      Signer_PrivateSpendKey node' = Signer_PrivateSpendKey node \<and>
      genesisNodesMap node' = genesisNodesMap node \<and>
      CosiAggregators node' = CosiAggregators node \<and> CosiVerifiers node' = CosiVerifiers node \<and>
      Graph node' = Graph node)"

subsection \<open>Notions of the statements about the log\<close>

text \<open>The snapshot that an event finalizes: the one written through \<open>WriteSnapshot\<close> or
  handed to \<open>finalizeNodeAcceptSnapshot\<close>.\<close>

fun finalized_snapshot :: "event \<Rightarrow> Snapshot option" where
  "finalized_snapshot (WriteSnapshot s topo) = Some s"
| "finalized_snapshot (FinalizeNodeAcceptSnapshot s) = Some s"
| "finalized_snapshot ev = None"

text \<open>A log that continues another with events that all satisfy a property.\<close>

definition log_extends :: "(event \<Rightarrow> bool) \<Rightarrow> event list \<Rightarrow> event list \<Rightarrow> bool" where
  "log_extends P l l' = (\<exists>evs. l' = l @ evs \<and> list_all P evs)"

text \<open>The events a handler has added to the log of the node.\<close>

definition new_events :: "Node \<Rightarrow> Node \<Rightarrow> event list" where
  "new_events node node' = drop (length (log node)) (log node')"

section \<open>Concrete states\<close>

text \<open>Small collaborators, nodes and snapshots on which the definitions are evaluated.\<close>

definition test_crypto :: crypto_ops where
  "test_crypto =
     \<lparr>hash_String =
        map (\<lambda>b. if b = 1 then CHR ''1'' else if b = 2 then CHR ''2'' else CHR ''0''),
      sig_String = (\<lambda>sig. ''sig''),
      MsgpackMarshalPanic = (\<lambda>sig. concat (cosi_Signatures sig)),
      pub_Key = (\<lambda>k. k),
      NewHash = (\<lambda>bs. bs),
      FullVerify = (\<lambda>sig publics threshold msg. False),
      Challenge = (\<lambda>sig publics msg. ([3], None)),
      VerifyWithChallenge = (\<lambda>pub msg sig challenge. True),
      SignWithChallenge = (\<lambda>priv random msg challenge. [4]),
      WithCommitment = (\<lambda>sig commitment. sig),
      DumpSignatureResponse = (\<lambda>sig s. s),
      LoadResponseSignature = (\<lambda>sig commitment response. ([4], None)),
      AggregateSignature =
        (\<lambda>sig i s. (sig\<lparr>cosi_Signatures := cosi_Signatures sig @ [s]\<rparr>, None)),
      CosiAggregateCommitments =
        (\<lambda>cs. (Some \<lparr>cosi_Signatures = [], cosi_Mask = 0\<rparr>, None)),
      priv_Public = (\<lambda>priv. priv)\<rparr>"

definition test_config :: config where
  "test_config =
     \<lparr>SnapshotVersion = 1, SnapshotRoundGap = 3000000000,
      SnapshotReferenceThreshold = 10, SnapshotSyncRoundThreshold = 100,
      KernelNodeAcceptPeriodMinimum = 1000, TransactionTypeNodeAccept = 9\<rparr>"

definition test_tx :: VersionedTransaction where
  "test_tx = \<lparr>TransactionType = 0, tx_PayloadHash = [7]\<rparr>"

definition test_kernel :: kernel_ops where
  "test_kernel =
     \<lparr>PayloadHash = (\<lambda>s. [0]),
      cn_IdForNetwork = (\<lambda>cn net. Signer_PublicSpendKey cn),
      ConsensusKeys = (\<lambda>t. [[1]]),
      ConsensusThreshold = (\<lambda>t. 1),
      ConsensusRemovedRecently = (\<lambda>t. None),
      CheckCatchUpWithPeers = True,
      CheckBroadcastedToPeers = True,
      checkCacheSnapshotTransaction = (\<lambda>s. (Some test_tx, False, None)),
      checkFinalSnapshotTransaction = (\<lambda>s. (Some test_tx, None)),
      determinBestRound = (\<lambda>n t. None),
      tryToStartNewRound = (\<lambda>s. (False, None)),
      ReadRound = (\<lambda>h. (None, None)),
      ReadLink = (\<lambda>a b. (0, None)),
      ComputeRoundHash = (\<lambda>n r ss. (0, 0, [5])),
      Gap = (\<lambda>c. (0, 0)),
      ValidateSnapshot =
        (\<lambda>c s add. (None, if add then c\<lparr>cr_Snapshots := cr_Snapshots c @ [s]\<rparr> else c)),
      clock_Now = (\<lambda>n. 100),
      TopoCounter_Next = 1,
      NewPrivateKeyFromReader = [9],
      effect_error = (\<lambda>ev. None)\<rparr>"

definition test_env :: env where
  "test_env = \<lparr>crypto = test_crypto, cfg = test_config, kernel = test_kernel\<rparr>"

definition test_graph :: RoundGraph where
  "test_graph =
     \<lparr>CacheRound = Map.empty, FinalRound = Map.empty, RoundHistory = (\<lambda>n. []),
      ReverseRoundLinks = (\<lambda>n. 0), GraphTimestamp = 0\<rparr>"

definition test_node :: Node where
  "test_node =
     \<lparr>IdForNetwork = [1], networkId = [0], ConsensusIndex = 0,
      ConsensusNodes = [], SortedConsensusNodes = [], ConsensusPledging = None,
      Signer_PrivateSpendKey = [8], genesisNodesMap = (\<lambda>n. True), CosiAggregators = Map.empty, CosiVerifiers = Map.empty,
      Graph = test_graph, cacheStore = Map.empty, log = []\<rparr>"

definition test_sig :: CosiSignature where
  "test_sig = \<lparr>cosi_Signatures = [], cosi_Mask = 0\<rparr>"

definition test_snapshot :: Snapshot where
  "test_snapshot =
     \<lparr>Version = 1, NodeId = [2], Transaction = [7], References = None,
      RoundNumber = 0, Timestamp = 50, Signatures = [],
      Signature = Some test_sig, Hash = [0], Commitment = None\<rparr>"

definition test_final :: "u64 \<Rightarrow> FinalRound" where
  "test_final n = \<lparr>fr_NodeId = [2], fr_Number = n, fr_Start = 0, fr_End = 0, fr_Hash = [5]\<rparr>"

definition test_cache :: "u64 \<Rightarrow> CacheRound" where
  "test_cache n =
     \<lparr>cr_NodeId = [2], cr_Number = n, cr_Timestamp = 0, cr_References = None,
      cr_Snapshots = []\<rparr>"

definition test_call :: cosi_call where
  "test_call = \<lparr>call_snap = [0], call_sig = test_sig, call_publics = [[1]], call_threshold = 1\<rparr>"

definition test_graph_5 :: RoundGraph where
  "test_graph_5 =
     test_graph\<lparr>FinalRound := [[2] \<mapsto> test_final 5], CacheRound := [[2] \<mapsto> test_cache 6],
       RoundHistory := (\<lambda>n. if n = [2] then [test_final 5] else [])\<rparr>"

definition removed_node :: CNode where
  "removed_node = \<lparr>Signer_PublicSpendKey = [2], cn_Timestamp = 0\<rparr>"

text \<open>A verifier that accepts the publics \<open>[[1], [2]]\<close> only, after the removal of node \<open>[2]\<close>.\<close>

definition removed_env :: env where
  "removed_env =
     \<lparr>crypto = test_crypto\<lparr>FullVerify := (\<lambda>sig publics threshold msg. publics = [[1], [2]])\<rparr>,
      cfg = test_config,
      kernel = test_kernel\<lparr>ConsensusRemovedRecently := (\<lambda>t. Some removed_node)\<rparr>\<rparr>"

text \<open>A verifier that accepts every signature.\<close>

definition accepting_env :: env where
  "accepting_env =
     \<lparr>crypto = test_crypto\<lparr>FullVerify := (\<lambda>sig publics threshold msg. True)\<rparr>,
      cfg = test_config, kernel = test_kernel\<rparr>"

definition test_refs :: RoundLink where
  "test_refs = \<lparr>Self = [5], External = [6]\<rparr>"

text \<open>A snapshot of node \<open>[2]\<close> for round 1, and a cache round 0 of that node with one snapshot.\<close>

definition test_snapshot_1 :: Snapshot where
  "test_snapshot_1 = test_snapshot\<lparr>RoundNumber := 1, References := Some test_refs\<rparr>"

definition test_cache_full :: CacheRound where
  "test_cache_full = (test_cache 0)\<lparr>cr_Snapshots := [test_snapshot]\<rparr>"

text \<open>An external round of node \<open>[3]\<close>, number 20, later than the snapshots above; the
  head of node \<open>[3]\<close> is at round 200.\<close>

definition test_external :: Round where
  "test_external = \<lparr>r_Hash = [6], r_NodeId = [3], r_Number = 20, r_Timestamp = 60\<rparr>"

definition external_kernel :: kernel_ops where
  "external_kernel = test_kernel\<lparr>ReadRound := (\<lambda>h. (Some test_external, None))\<rparr>"

definition external_node :: Node where
  "external_node =
     test_node\<lparr>Graph := test_graph\<lparr>FinalRound :=
       [[3] \<mapsto> \<lparr>fr_NodeId = [3], fr_Number = 200, fr_Start = 0, fr_End = 0, fr_Hash = [6]\<rparr>]\<rparr>\<rparr>"

text \<open>
  A node \<open>[1]\<close> of the consensus with the peers \<open>[2]\<close> and \<open>[3]\<close>; the chain of node \<open>[2]\<close>
  has its final round 5 and its cache round 6.
\<close>

definition test_peer :: "hash \<Rightarrow> CNode" where
  "test_peer n = \<lparr>Signer_PublicSpendKey = n, cn_Timestamp = 0\<rparr>"

definition consensus_node :: Node where
  "consensus_node =
     test_node\<lparr>ConsensusNodes := [([2], test_peer [2]), ([3], test_peer [3])],
       SortedConsensusNodes := [[1], [2], [3]], Graph := test_graph_5\<rparr>"

text \<open>Announcements of node \<open>[2]\<close> at time 50, within the round gap of the final round's
  start, for round 7 and for round 9.\<close>

definition announced_snapshot :: "u64 \<Rightarrow> Snapshot" where
  "announced_snapshot n =
     test_snapshot\<lparr>RoundNumber := n, Signature := None, References := Some test_refs\<rparr>"

definition announcement :: "u64 \<Rightarrow> CosiAction" where
  "announcement n =
     \<lparr>m_Action = CosiActionExternalAnnouncement, m_PeerId = [2], m_SnapshotHash = [0],
      m_Snapshot = Some (announced_snapshot n), m_Commitment = Some [9], m_Signature = None,
      m_Response = None, m_Transaction = None, m_WantTx = False\<rparr>"


definition challenge :: "Signature list \<Rightarrow> CosiAction" where
  "challenge sigs =
     \<lparr>m_Action = CosiActionExternalChallenge, m_PeerId = [2], m_SnapshotHash = [0],
      m_Snapshot = None, m_Commitment = None,
      m_Signature = Some \<lparr>cosi_Signatures = sigs, cosi_Mask = 0\<rparr>,
      m_Response = None, m_Transaction = None, m_WantTx = False\<rparr>"

text \<open>
  Node \<open>[1]\<close> proposed the snapshot with hash \<open>[0]\<close> for round 6 of its own chain; it holds
  its own and peer \<open>[2]\<close>'s commitments and its own response, and receives the response of
  peer \<open>[2]\<close>.
\<close>

definition proposed_snapshot :: Snapshot where
  "proposed_snapshot =
     test_snapshot\<lparr>NodeId := [1], RoundNumber := 6, References := Some test_refs\<rparr>"

definition proposed_aggregator :: CosiAggregator where
  "proposed_aggregator =
     \<lparr>agg_Snapshot = proposed_snapshot, agg_Transaction = test_tx,
      agg_WantTxs = [[2] \<mapsto> False],
      agg_Commitments = [(0, Some [9]), (1, Some [9])], agg_Responses = [],
      agg_committed = [[2] \<mapsto> True], agg_responsed = [([1], True)]\<rparr>"

definition proposer_graph :: RoundGraph where
  "proposer_graph =
     test_graph\<lparr>FinalRound := [[1] \<mapsto> (test_final 5)\<lparr>fr_NodeId := [1]\<rparr>],
       CacheRound := [[1] \<mapsto> (test_cache 6)\<lparr>cr_NodeId := [1],
                                   cr_References := Some test_refs\<rparr>],
       RoundHistory := (\<lambda>n. if n = [1] then [(test_final 5)\<lparr>fr_NodeId := [1]\<rparr>] else [])\<rparr>"

definition proposer_node :: Node where
  "proposer_node =
     test_node\<lparr>ConsensusNodes := [([2], test_peer [2])], SortedConsensusNodes := [[1], [2]],
       CosiAggregators := [[0] \<mapsto> proposed_aggregator], Graph := proposer_graph\<rparr>"

definition response :: CosiAction where
  "response =
     \<lparr>m_Action = CosiActionSelfResponse, m_PeerId = [2], m_SnapshotHash = [0],
      m_Snapshot = None, m_Commitment = None, m_Signature = None,
      m_Response = Some [4], m_Transaction = None, m_WantTx = False\<rparr>"

text \<open>The snapshot with the peer's response aggregated into its signature.\<close>

definition aggregated_snapshot :: Snapshot where
  "aggregated_snapshot =
     proposed_snapshot\<lparr>Signature := Some \<lparr>cosi_Signatures = [[4]], cosi_Mask = 0\<rparr>\<rparr>"

text \<open>A crypto package in which every hash and every signature print as the two recorded
  literals, and whose verifier rejects every signature.\<close>

definition override_env :: env where
  "override_env =
     \<lparr>crypto = test_crypto\<lparr>hash_String := (\<lambda>h. override_snap),
                            sig_String := (\<lambda>sig. override_sig)\<rparr>,
      cfg = test_config, kernel = test_kernel\<rparr>"

lemmas test_defs =
  test_crypto_def test_config_def test_tx_def test_kernel_def test_env_def test_graph_def
  test_node_def test_sig_def test_snapshot_def test_final_def test_cache_def

section \<open>Properties\<close>

subsection \<open>Unsigned 64-bit arithmetic\<close>

lemma unat_u64_bound: "unat (n::u64) < 2 ^ 64"
  using unsigned_less [of n] by simp

lemma unat_succ: "unat ((n::u64) + 1) = (if unat n + 1 < 2 ^ 64 then unat n + 1 else 0)"
proof -
  have "unat n + 1 < 2 ^ 64 \<or> unat n + 1 = 2 ^ 64"
    using unat_u64_bound [of n] by arith
  then show ?thesis by (auto simp: unat_word_ariths)
qed

lemma succ_eq_iff: "(n::u64) \<le> N \<Longrightarrow> (n + 1 = N) = (unat N = unat n + 1)"
  using unat_u64_bound [of N]
  by (auto simp: word_le_nat_alt word_unat_eq_iff [of "n + 1" N] unat_succ)

lemma succ_less: "unat (n::u64) + 1 < unat N \<Longrightarrow> n + 1 < N"
  using unat_u64_bound [of N]
  by (auto simp: word_less_nat_alt unat_succ)

lemma not_adjacent_same:
  "\<not> (n::u64) > N \<Longrightarrow> \<not> n + 1 < N \<Longrightarrow> n + 1 \<noteq> N \<Longrightarrow> n = N"
  using unat_u64_bound [of N] unat_u64_bound [of n]
  by (auto simp: word_less_nat_alt word_unat_eq_iff [of "n + 1" N] word_unat_eq_iff [of n N]
      unat_succ split: if_splits)

subsection \<open>The historical override\<close>

text \<open>
  C2: for every list of publics and every threshold, \<open>CacheVerifyCosi\<close> returns true with
  no call of the verifier and no access to the cache store (no event at all, and the
  store as it was) exactly when the snapshot hash and the signature print as the two
  recorded literals.
\<close>

theorem CacheVerifyCosi_override:
  "((fst (CacheVerifyCosi ops store snap sig publics threshold)
      \<and> snd (snd (CacheVerifyCosi ops store snap sig publics threshold)) = [])
     = (hash_String ops snap
          = ''b3ea56de6124ad2f3ad1d48f2aff8338b761e62bcde6f2f0acba63a32dd8eecc''
        \<and> sig_String ops sig
          = ''dbb0347be24ecb8de3d66631d347fde724ff92e22e1f45deeb8b5d843fd62da39ca8e39de9f35f1e0f7336d4686917983470c098edc91f456d577fb18069620f000000003fdfe712''))
   \<and> ((CacheVerifyCosi ops store snap sig publics threshold = (True, store, []))
     = (hash_String ops snap
          = ''b3ea56de6124ad2f3ad1d48f2aff8338b761e62bcde6f2f0acba63a32dd8eecc''
        \<and> sig_String ops sig
          = ''dbb0347be24ecb8de3d66631d347fde724ff92e22e1f45deeb8b5d843fd62da39ca8e39de9f35f1e0f7336d4686917983470c098edc91f456d577fb18069620f000000003fdfe712''))"
  unfolding CacheVerifyCosi_def override_snap_def override_sig_def Let_def
  by (simp only: split: if_split) auto

subsection \<open>Idempotence of the verification cache\<close>

lemma call_one_byte:
  assumes "store k = Some [v]"
  shows "call_CacheVerifyCosi ops store c =
     (if call_override ops c then (True, store, [])
      else if call_key ops c = k then (v = 1, store, [CacheGet k])
      else call_CacheVerifyCosi ops store c)"
  using assms
  by (simp add: call_CacheVerifyCosi_def call_override_def call_key_def CacheVerifyCosi_def
      Let_def cacheStore_Get_def)

lemma call_keeps_one_byte:
  assumes "call_CacheVerifyCosi ops store c = (r, store', evs)" and "store k = Some [v]"
  shows "store' k = Some [v]"
  using assms
  by (auto simp: call_CacheVerifyCosi_def CacheVerifyCosi_def Let_def cacheStore_Get_def
      cacheStore_Set_def split: if_splits option.splits)

lemma call_count_zero:
  assumes "call_CacheVerifyCosi ops store c = (r, store', evs)" and "store k = Some [v]"
  shows "FullVerify_count ops k evs = 0"
  using assms
  by (auto simp: call_CacheVerifyCosi_def CacheVerifyCosi_def Let_def cacheStore_Get_def
      cacheStore_Set_def FullVerify_count_def split: if_splits option.splits)

lemma call_count_le_one:
  assumes "call_CacheVerifyCosi ops store c = (r, store', evs)"
  shows "FullVerify_count ops k evs \<le> 1"
  using assms
  by (auto simp: call_CacheVerifyCosi_def CacheVerifyCosi_def Let_def FullVerify_count_def
      split: if_splits)

lemma call_count_pos_stored:
  assumes "call_CacheVerifyCosi ops store c = (r, store', evs)"
    and "0 < FullVerify_count ops k evs"
  shows "\<exists>v. store' k = Some [v]"
  using assms
  by (auto simp: call_CacheVerifyCosi_def CacheVerifyCosi_def Let_def FullVerify_count_def
      cacheStore_Set_def split: if_splits)

lemma call_answer_stored:
  assumes "call_CacheVerifyCosi ops store c = (r, store', evs)"
    and "\<not> call_override ops c"
  shows "\<exists>v. store' (call_key ops c) = Some [v] \<and> r = (v = 1)"
proof (cases "length (cacheStore_Get store (call_key ops c)) = 1")
  case True
  then obtain v where v: "cacheStore_Get store (call_key ops c) = [v]"
    by (auto simp: length_Suc_conv)
  then have "store (call_key ops c) = Some [v]"
    by (auto simp: cacheStore_Get_def split: option.splits)
  moreover from assms v have "r = (v = 1)" and "store' = store"
    by (auto simp: call_CacheVerifyCosi_def call_override_def call_key_def CacheVerifyCosi_def Let_def)
  ultimately show ?thesis by simp
next
  case False
  with assms show ?thesis
    by (auto simp: call_CacheVerifyCosi_def call_override_def call_key_def CacheVerifyCosi_def
        Let_def cacheStore_Set_def split: if_splits)
qed

lemma call_override_out:
  assumes "call_override ops c"
  shows "call_CacheVerifyCosi ops store c = (True, store, [])"
  using assms
  by (simp add: call_CacheVerifyCosi_def call_override_def CacheVerifyCosi_def)

lemma calls_length:
  "CacheVerifyCosi_calls ops store cs = (outs, store') \<Longrightarrow> length outs = length cs"
  by (induction cs arbitrary: store outs store') (auto split: prod.splits)

lemma calls_override:
  "CacheVerifyCosi_calls ops store cs = (outs, store') \<Longrightarrow> j < length cs \<Longrightarrow>
   call_override ops (cs ! j) \<Longrightarrow> outs ! j = (True, [])"
proof (induction cs arbitrary: store outs store' j)
  case Nil
  then show ?case by simp
next
  case (Cons c cs)
  obtain r s1 evs where c1: "call_CacheVerifyCosi ops store c = (r, s1, evs)"
    by (cases "call_CacheVerifyCosi ops store c") auto
  obtain outs1 s2 where c2: "CacheVerifyCosi_calls ops s1 cs = (outs1, s2)"
    by (cases "CacheVerifyCosi_calls ops s1 cs") auto
  from Cons.prems(1) c1 c2 have outs: "outs = (r, evs) # outs1" by simp
  show ?case
  proof (cases j)
    case 0
    with Cons.prems(3) c1 outs show ?thesis by (simp add: call_override_out)
  next
    case (Suc j')
    with Cons.prems Cons.IH [OF c2, of j'] outs show ?thesis by simp
  qed
qed

lemma calls_one_byte:
  "CacheVerifyCosi_calls ops store cs = (outs, store') \<Longrightarrow> store k = Some [v] \<Longrightarrow>
   store' k = Some [v] \<and>
   FullVerify_count ops k (concat (map snd outs)) = 0 \<and>
   (\<forall>j<length cs. call_key ops (cs ! j) = k \<and> \<not> call_override ops (cs ! j)
        \<longrightarrow> outs ! j = (v = 1, [CacheGet k]))"
proof (induction cs arbitrary: store outs store')
  case Nil
  then show ?case by (simp add: FullVerify_count_def)
next
  case (Cons c cs)
  obtain r s1 evs where c1: "call_CacheVerifyCosi ops store c = (r, s1, evs)"
    by (cases "call_CacheVerifyCosi ops store c") auto
  obtain outs1 s2 where c2: "CacheVerifyCosi_calls ops s1 cs = (outs1, s2)"
    by (cases "CacheVerifyCosi_calls ops s1 cs") auto
  from Cons.prems(1) c1 c2 have outs: "outs = (r, evs) # outs1" and st: "store' = s2" by simp_all
  have s1k: "s1 k = Some [v]" by (rule call_keeps_one_byte [OF c1 Cons.prems(2)])
  note ih = Cons.IH [OF c2 s1k]
  have z: "FullVerify_count ops k evs = 0" by (rule call_count_zero [OF c1 Cons.prems(2)])
  have hd: "call_key ops c = k \<and> \<not> call_override ops c \<Longrightarrow> (r, evs) = (v = 1, [CacheGet k])"
    using c1 call_one_byte [where store=store and k=k and v=v and ops=ops and c=c] Cons.prems(2) by simp
  have cnt: "FullVerify_count ops k (concat (map snd outs)) = 0"
    using z ih outs by (simp add: FullVerify_count_def)
  have nth: "\<forall>j<length (c # cs). call_key ops ((c # cs) ! j) = k \<and> \<not> call_override ops ((c # cs) ! j)
        \<longrightarrow> outs ! j = (v = 1, [CacheGet k])"
  proof (intro allI impI)
    fix j assume j: "j < length (c # cs)"
      and a: "call_key ops ((c # cs) ! j) = k \<and> \<not> call_override ops ((c # cs) ! j)"
    show "outs ! j = (v = 1, [CacheGet k])"
    proof (cases j)
      case 0
      with a hd outs show ?thesis by simp
    next
      case (Suc j')
      with j a ih outs show ?thesis by simp
    qed
  qed
  from ih st cnt nth show ?case by simp
qed

lemma calls_count_le_one:
  "CacheVerifyCosi_calls ops store cs = (outs, store') \<Longrightarrow>
   FullVerify_count ops k (concat (map snd outs)) \<le> 1"
proof (induction cs arbitrary: store outs store')
  case Nil
  then show ?case by (simp add: FullVerify_count_def)
next
  case (Cons c cs)
  obtain r s1 evs where c1: "call_CacheVerifyCosi ops store c = (r, s1, evs)"
    by (cases "call_CacheVerifyCosi ops store c") auto
  obtain outs1 s2 where c2: "CacheVerifyCosi_calls ops s1 cs = (outs1, s2)"
    by (cases "CacheVerifyCosi_calls ops s1 cs") auto
  from Cons.prems(1) c1 c2 have outs: "outs = (r, evs) # outs1" by simp
  have split: "FullVerify_count ops k (concat (map snd outs)) =
      FullVerify_count ops k evs + FullVerify_count ops k (concat (map snd outs1))"
    using outs by (simp add: FullVerify_count_def)
  show ?case
  proof (cases "0 < FullVerify_count ops k evs")
    case True
    then obtain v where "s1 k = Some [v]" using call_count_pos_stored [OF c1] by blast
    then have "FullVerify_count ops k (concat (map snd outs1)) = 0"
      using calls_one_byte [OF c2] by blast
    with split call_count_le_one [OF c1, of k] show ?thesis by simp
  next
    case False
    with split Cons.IH [OF c2] show ?thesis by simp
  qed
qed

lemma calls_repeat:
  "CacheVerifyCosi_calls ops store cs = (outs, store') \<Longrightarrow> i < j \<Longrightarrow> j < length cs \<Longrightarrow>
   cs ! i = cs ! j \<Longrightarrow>
   fst (outs ! j) = fst (outs ! i) \<and>
   (snd (outs ! j) = [] \<or> snd (outs ! j) = [CacheGet (call_key ops (cs ! j))])"
proof (induction cs arbitrary: store outs store' i j)
  case Nil
  then show ?case by simp
next
  case (Cons c cs)
  obtain r s1 evs where c1: "call_CacheVerifyCosi ops store c = (r, s1, evs)"
    by (cases "call_CacheVerifyCosi ops store c") auto
  obtain outs1 s2 where c2: "CacheVerifyCosi_calls ops s1 cs = (outs1, s2)"
    by (cases "CacheVerifyCosi_calls ops s1 cs") auto
  from Cons.prems(1) c1 c2 have outs: "outs = (r, evs) # outs1" by simp
  from Cons.prems(2) obtain j' where j': "j = Suc j'" by (cases j) auto
  with Cons.prems(3) have j'len: "j' < length cs" by simp
  show ?case
  proof (cases i)
    case 0
    with Cons.prems(4) j' have same: "cs ! j' = c" by simp
    show ?thesis
    proof (cases "call_override ops c")
      case True
      with same calls_override [OF c2 j'len] have "outs1 ! j' = (True, [])" by simp
      moreover from True c1 have "r" by (simp add: call_override_out)
      ultimately show ?thesis using 0 j' outs by simp
    next
      case False
      from call_answer_stored [OF c1 False] obtain v
        where v: "s1 (call_key ops c) = Some [v]" "r = (v = 1)" by blast
      from calls_one_byte [OF c2 v(1)] j'len same False
      have "outs1 ! j' = (v = 1, [CacheGet (call_key ops c)])" by simp
      with v(2) 0 j' outs same show ?thesis by simp
    qed
  next
    case (Suc i')
    with Cons.prems j' Cons.IH [OF c2, of i' j'] outs show ?thesis by simp
  qed
qed

text \<open>
  C8: in any sequence of calls of \<open>CacheVerifyCosi\<close> against the node's cache store,
  calls with the same arguments (hash, signature, publics, threshold) return the same
  boolean; a repeated call is answered by the override or from the one-byte cached value
  (its only event, if any, is the \<open>Get\<close> of its key); and the verifier is invoked at most
  once for each cache key.
\<close>

theorem CacheVerifyCosi_idempotent:
  assumes "CacheVerifyCosi_calls ops store cs = (outs, store')"
  shows "length outs = length cs \<and>
    (\<forall>i<length cs. \<forall>j<length cs. cs ! i = cs ! j \<longrightarrow> fst (outs ! i) = fst (outs ! j)) \<and>
    (\<forall>i j. i < j \<and> j < length cs \<and> cs ! i = cs ! j \<longrightarrow>
        (snd (outs ! j) = [] \<or> snd (outs ! j) = [CacheGet (call_key ops (cs ! j))])) \<and>
    (\<forall>k. FullVerify_count ops k (concat (map snd outs)) \<le> 1)"
proof (intro conjI allI impI)
  show "length outs = length cs" by (rule calls_length [OF assms])
next
  fix i j assume i: "i < length cs" and j: "j < length cs" and e: "cs ! i = cs ! j"
  consider "i < j" | "j < i" | "i = j" by arith
  then show "fst (outs ! i) = fst (outs ! j)"
  proof cases
    case 1
    with calls_repeat [OF assms 1 j e] show ?thesis by simp
  next
    case 2
    with calls_repeat [OF assms 2 i] e show ?thesis by simp
  next
    case 3
    then show ?thesis by simp
  qed
next
  fix i j assume "i < j \<and> j < length cs \<and> cs ! i = cs ! j"
  then show "snd (outs ! j) = [] \<or> snd (outs ! j) = [CacheGet (call_key ops (cs ! j))]"
    using calls_repeat [OF assms, of i j] by simp
next
  fix k show "FullVerify_count ops k (concat (map snd outs)) \<le> 1"
    by (rule calls_count_le_one [OF assms])
qed

theorem CacheVerifyCosi_idempotent_witness:
  "length (fst (CacheVerifyCosi_calls test_crypto Map.empty [test_call, test_call])) = 2 \<and>
   fst (fst (CacheVerifyCosi_calls test_crypto Map.empty [test_call, test_call]) ! 0)
     = fst (fst (CacheVerifyCosi_calls test_crypto Map.empty [test_call, test_call]) ! 1) \<and>
   snd (fst (CacheVerifyCosi_calls test_crypto Map.empty [test_call, test_call]) ! 1)
     = [CacheGet (call_key test_crypto test_call)] \<and>
   FullVerify_count test_crypto (call_key test_crypto test_call)
     (concat (map snd (fst (CacheVerifyCosi_calls test_crypto Map.empty [test_call, test_call]))))
     = 1"
proof -
  let ?R = "CacheVerifyCosi_calls test_crypto Map.empty [test_call, test_call]"
  have h: "?R = (fst ?R, snd ?R)" by simp
  note t = CacheVerifyCosi_idempotent [OF h]
  from t have a: "length (fst ?R) = 2" by simp
  from t have b: "fst (fst ?R ! 0) = fst (fst ?R ! 1)" by simp
  have c: "snd (fst ?R ! 1) = [CacheGet (call_key test_crypto test_call)]"
    by code_simp
  have d: "FullVerify_count test_crypto (call_key test_crypto test_call)
     (concat (map snd (fst ?R))) = 1"
    by code_simp
  from a b c d show ?thesis by simp
qed

subsection \<open>Assigning a new graph round\<close>

lemma assign_append:
  assumes "fr_NodeId final = cr_NodeId cache"
  shows "(fst (assignNewGraphRound g final cache) = Returned () \<and>
          RoundHistory (snd (assignNewGraphRound g final cache)) (fr_NodeId final)
            = RoundHistory g (fr_NodeId final) @ [final]) =
         (if RoundHistory g (fr_NodeId final) = [] then fr_Number final = 0
          else unat (fr_Number final) = unat (fr_Number (last (RoundHistory g (fr_NodeId final)))) + 1)"
proof (cases "RoundHistory g (fr_NodeId final) = []")
  case True
  with assms show ?thesis by (simp add: assignNewGraphRound_def Let_def)
next
  case False
  let ?n = "fr_Number (last (RoundHistory g (fr_NodeId final)))"
  show ?thesis
  proof (cases "?n \<le> fr_Number final")
    case le: True
    then have a: "\<not> ?n > fr_Number final" by simp
    have b: "?n + 1 = fr_Number final \<Longrightarrow> \<not> ?n + 1 < fr_Number final" by simp
    from False assms a b succ_eq_iff [OF le] show ?thesis
      by (auto simp add: assignNewGraphRound_def Let_def)
  next
    case gt: False
    then have "\<not> unat (fr_Number final) = unat ?n + 1" by (simp add: word_le_nat_alt)
    with False assms gt show ?thesis
      by (auto simp add: assignNewGraphRound_def Let_def not_le)
  qed
qed

lemma assign_panics:
  assumes "RoundHistory g (fr_NodeId final) \<noteq> []"
   and "unat (fr_Number final) > unat (fr_Number (last (RoundHistory g (fr_NodeId final)))) + 1
      \<or> fr_Number final < fr_Number (last (RoundHistory g (fr_NodeId final)))"
  shows "\<exists>p. fst (assignNewGraphRound g final cache) = Panicked p"
  using assms succ_less [of "fr_Number (last (RoundHistory g (fr_NodeId final)))" "fr_Number final"]
  by (auto simp add: assignNewGraphRound_def Let_def)

lemma assign_returned:
  assumes "assignNewGraphRound g final cache = (Returned (), g')"
  shows "CacheRound g' = (CacheRound g)(fr_NodeId final \<mapsto> cache) \<and>
         FinalRound g' = (FinalRound g)(fr_NodeId final \<mapsto> final) \<and>
         (\<forall>m. m \<noteq> fr_NodeId final \<longrightarrow> RoundHistory g' m = RoundHistory g m) \<and>
         (RoundHistory g' (fr_NodeId final) = RoundHistory g (fr_NodeId final) @ [final] \<or>
          RoundHistory g' (fr_NodeId final) = RoundHistory g (fr_NodeId final)) \<and>
         RoundHistory g' (fr_NodeId final) \<noteq> [] \<and>
         fr_Number (last (RoundHistory g' (fr_NodeId final))) = fr_Number final"
proof (cases "RoundHistory g (fr_NodeId final) = []")
  case True
  with assms show ?thesis
    by (auto simp add: assignNewGraphRound_def Let_def split: if_splits)
next
  case False
  let ?n = "fr_Number (last (RoundHistory g (fr_NodeId final)))"
  show ?thesis
  proof (cases "?n + 1 = fr_Number final")
    case True
    with False assms show ?thesis
      by (auto simp add: assignNewGraphRound_def Let_def split: if_splits)
  next
    case ne: False
    from assms False have "\<not> ?n > fr_Number final" "\<not> ?n + 1 < fr_Number final"
      by (auto simp add: assignNewGraphRound_def Let_def split: if_splits)
    with ne have "?n = fr_Number final" by (rule_tac not_adjacent_same) auto
    with False assms ne show ?thesis
      by (auto simp add: assignNewGraphRound_def Let_def split: if_splits)
  qed
qed

lemma assign_monotone:
  assumes "assignNewGraphRound g final cache = (Returned (), g')"
    and "history_tracks_final g (fr_NodeId final)"
    and "FinalRound g (fr_NodeId final) = Some old"
  shows "fr_Number old \<le> fr_Number final"
proof -
  from assms(2,3) have ne: "RoundHistory g (fr_NodeId final) \<noteq> []"
    and l: "fr_Number (last (RoundHistory g (fr_NodeId final))) = fr_Number old"
    by (simp_all add: history_tracks_final_def)
  from assms(1) ne have "\<not> fr_Number (last (RoundHistory g (fr_NodeId final))) > fr_Number final"
    by (auto simp add: assignNewGraphRound_def Let_def split: if_splits)
  with l show ?thesis by simp
qed

lemma assign_tracks:
  assumes "assignNewGraphRound g final cache = (Returned (), g')"
  shows "history_tracks_final g' (fr_NodeId final)"
  using assign_returned [OF assms] by (simp add: history_tracks_final_def)


text \<open>
  C7: \<open>assignNewGraphRound(final, cache)\<close>, called with rounds of the same node \<open>n\<close>,
  returns having appended \<open>final\<close> to \<open>RoundHistory[n]\<close> exactly when the history is
  empty and \<open>final.Number\<close> is 0, or the history is not empty and \<open>final.Number\<close> is its
  last number plus 1; whenever it returns it has replaced \<open>CacheRound[n]\<close> and
  \<open>FinalRound[n]\<close>, and the history is as it was or longer by \<open>final\<close>. With a history
  that is not empty, a \<open>final.Number\<close> above the last number plus 1 or below the last
  number is a panic. So, where the head of the chain and the history agree before the
  call, they agree after it and the number of \<open>FinalRound[n]\<close> has not decreased.
\<close>

theorem assignNewGraphRound_contiguous:
  assumes "fr_NodeId final = cr_NodeId cache"
  shows
   "((fst (assignNewGraphRound g final cache) = Returned () \<and>
      RoundHistory (snd (assignNewGraphRound g final cache)) (fr_NodeId final)
        = RoundHistory g (fr_NodeId final) @ [final])
     = (if RoundHistory g (fr_NodeId final) = [] then fr_Number final = 0
        else unat (fr_Number final)
               = unat (fr_Number (last (RoundHistory g (fr_NodeId final)))) + 1))
    \<and> (fst (assignNewGraphRound g final cache) = Returned () \<longrightarrow>
         CacheRound (snd (assignNewGraphRound g final cache)) (fr_NodeId final) = Some cache \<and>
         FinalRound (snd (assignNewGraphRound g final cache)) (fr_NodeId final) = Some final \<and>
         (RoundHistory (snd (assignNewGraphRound g final cache)) (fr_NodeId final)
            = RoundHistory g (fr_NodeId final) @ [final] \<or>
          RoundHistory (snd (assignNewGraphRound g final cache)) (fr_NodeId final)
            = RoundHistory g (fr_NodeId final)))
    \<and> (RoundHistory g (fr_NodeId final) \<noteq> [] \<and>
        (unat (fr_Number final)
           > unat (fr_Number (last (RoundHistory g (fr_NodeId final)))) + 1
         \<or> fr_Number final < fr_Number (last (RoundHistory g (fr_NodeId final))))
        \<longrightarrow> (\<exists>p. fst (assignNewGraphRound g final cache) = Panicked p))
    \<and> (fst (assignNewGraphRound g final cache) = Returned () \<and>
        history_tracks_final g (fr_NodeId final)
        \<longrightarrow> history_tracks_final (snd (assignNewGraphRound g final cache)) (fr_NodeId final) \<and>
            (\<forall>old. FinalRound g (fr_NodeId final) = Some old
                   \<longrightarrow> fr_Number old \<le> fr_Number final))"
proof (intro conjI impI allI)
  show "(fst (assignNewGraphRound g final cache) = Returned () \<and>
      RoundHistory (snd (assignNewGraphRound g final cache)) (fr_NodeId final)
        = RoundHistory g (fr_NodeId final) @ [final])
     = (if RoundHistory g (fr_NodeId final) = [] then fr_Number final = 0
        else unat (fr_Number final)
               = unat (fr_Number (last (RoundHistory g (fr_NodeId final)))) + 1)"
    by (rule assign_append [OF assms])
next
  assume r: "fst (assignNewGraphRound g final cache) = Returned ()"
  then have e: "assignNewGraphRound g final cache
      = (Returned (), snd (assignNewGraphRound g final cache))"
    by (cases "assignNewGraphRound g final cache") simp
  note t = assign_returned [OF e]
  from t show "CacheRound (snd (assignNewGraphRound g final cache)) (fr_NodeId final) = Some cache"
    by simp
  from t show "FinalRound (snd (assignNewGraphRound g final cache)) (fr_NodeId final) = Some final"
    by simp
  from t show "RoundHistory (snd (assignNewGraphRound g final cache)) (fr_NodeId final)
            = RoundHistory g (fr_NodeId final) @ [final] \<or>
          RoundHistory (snd (assignNewGraphRound g final cache)) (fr_NodeId final)
            = RoundHistory g (fr_NodeId final)"
    by blast
next
  assume "RoundHistory g (fr_NodeId final) \<noteq> [] \<and>
        (unat (fr_Number final)
           > unat (fr_Number (last (RoundHistory g (fr_NodeId final)))) + 1
         \<or> fr_Number final < fr_Number (last (RoundHistory g (fr_NodeId final))))"
  then show "\<exists>p. fst (assignNewGraphRound g final cache) = Panicked p"
    using assign_panics [of g final cache] by blast
next
  assume a: "fst (assignNewGraphRound g final cache) = Returned () \<and>
        history_tracks_final g (fr_NodeId final)"
  then have e: "assignNewGraphRound g final cache
      = (Returned (), snd (assignNewGraphRound g final cache))"
    by (cases "assignNewGraphRound g final cache") simp
  show "history_tracks_final (snd (assignNewGraphRound g final cache)) (fr_NodeId final)"
    by (rule assign_tracks [OF e])
  fix old assume "FinalRound g (fr_NodeId final) = Some old"
  with a show "fr_Number old \<le> fr_Number final"
    using assign_monotone [OF e] by blast
qed

theorem assignNewGraphRound_contiguous_witness:
  "fr_NodeId (test_final 6) = cr_NodeId (test_cache 7) \<and>
   history_tracks_final test_graph_5 [2] \<and>
   fst (assignNewGraphRound test_graph_5 (test_final 6) (test_cache 7)) = Returned () \<and>
   RoundHistory (snd (assignNewGraphRound test_graph_5 (test_final 6) (test_cache 7))) [2]
     = [test_final 5, test_final 6] \<and>
   FinalRound (snd (assignNewGraphRound test_graph_5 (test_final 6) (test_cache 7))) [2]
     = Some (test_final 6) \<and>
   history_tracks_final (snd (assignNewGraphRound test_graph_5 (test_final 6) (test_cache 7))) [2] \<and>
   (\<exists>p. fst (assignNewGraphRound test_graph_5 (test_final 8) (test_cache 9)) = Panicked p)"
proof -
  have n: "fr_NodeId (test_final 6) = cr_NodeId (test_cache 7)"
    by (simp add: test_defs)
  have n8: "fr_NodeId (test_final 8) = cr_NodeId (test_cache 9)"
    by (simp add: test_defs)
  have h: "history_tracks_final test_graph_5 [2]"
    by (simp add: history_tracks_final_def test_graph_5_def test_defs)
  have hist: "RoundHistory test_graph_5 (fr_NodeId (test_final 6)) = [test_final 5]"
    by (simp add: test_graph_5_def test_defs)
  have num: "unat (fr_Number (test_final 6)) = unat (fr_Number (test_final 5)) + 1"
    by (simp add: test_defs)
  note t = assignNewGraphRound_contiguous [OF n, of test_graph_5]
  from t hist num have a: "fst (assignNewGraphRound test_graph_5 (test_final 6) (test_cache 7)) = Returned ()"
    and b: "RoundHistory (snd (assignNewGraphRound test_graph_5 (test_final 6) (test_cache 7))) (fr_NodeId (test_final 6))
     = [test_final 5, test_final 6]"
    by simp_all
  from t a have c: "FinalRound (snd (assignNewGraphRound test_graph_5 (test_final 6) (test_cache 7))) (fr_NodeId (test_final 6))
     = Some (test_final 6)" by simp
  from t a h have d: "history_tracks_final (snd (assignNewGraphRound test_graph_5 (test_final 6) (test_cache 7))) (fr_NodeId (test_final 6))"
    by (simp add: test_defs)
  have hist8: "RoundHistory test_graph_5 (fr_NodeId (test_final 8)) = [test_final 5]"
    by (simp add: test_graph_5_def test_defs)
  have num8: "unat (fr_Number (test_final 8)) > unat (fr_Number (test_final 5)) + 1"
    by (simp add: test_defs)
  from assignNewGraphRound_contiguous [OF n8, of test_graph_5] hist8 num8
  have e: "\<exists>p. fst (assignNewGraphRound test_graph_5 (test_final 8) (test_cache 9)) = Panicked p"
    by simp
  have id: "fr_NodeId (test_final 6) = [2]" by (simp add: test_defs)
  from n h a b c d e show ?thesis unfolding id by simp
qed

subsection \<open>Verifying a finalization\<close>

lemma node_CacheVerifyCosi_fst:
  "fst (node_CacheVerifyCosi e node snap sig publics threshold) =
   fst (CacheVerifyCosi (crypto e) (cacheStore node) snap sig publics threshold)"
  by (simp add: node_CacheVerifyCosi_def split: prod.splits)

lemma node_CacheVerifyCosi_store:
  "cacheStore (snd (node_CacheVerifyCosi e node snap sig publics threshold)) =
   fst (snd (CacheVerifyCosi (crypto e) (cacheStore node) snap sig publics threshold))"
  by (simp add: node_CacheVerifyCosi_def split: prod.splits)

text \<open>A call that fails leaves every other key's verdict as it was, and its own verdict failing.\<close>

lemma failed_call_frame:
  assumes "CacheVerifyCosi ops st snap sig p t = (False, st', evs)"
    and "cosi_cache_key ops snap sig p' t \<noteq> cosi_cache_key ops snap sig p t"
  shows "fst (CacheVerifyCosi ops st' snap sig p' t) = fst (CacheVerifyCosi ops st snap sig p' t)"
  using assms
  by (auto simp: CacheVerifyCosi_def Let_def cacheStore_Get_def cacheStore_Set_def
      split: if_splits)

lemma failed_call_again:
  assumes "CacheVerifyCosi ops st snap sig p t = (False, st', evs)"
  shows "fst (CacheVerifyCosi ops st' snap sig p t) = False"
  using assms
  by (auto simp: CacheVerifyCosi_def Let_def cacheStore_Get_def cacheStore_Set_def
      split: if_splits)

lemma failed_call_same_verdicts:
  assumes c: "CacheVerifyCosi ops st snap sig p t = (False, st', evs)"
    and inj: "inj_on (\<lambda>q. cosi_cache_key ops snap sig q t) C" and p: "p \<in> C" and p': "p' \<in> C"
  shows "fst (CacheVerifyCosi ops st' snap sig p' t) = fst (CacheVerifyCosi ops st snap sig p' t)"
proof (cases "p' = p")
  case True
  with c failed_call_again [OF c] show ?thesis by simp
next
  case False
  with inj p p' have "cosi_cache_key ops snap sig p' t \<noteq> cosi_cache_key ops snap sig p t"
    by (auto dest: inj_onD)
  then show ?thesis by (rule failed_call_frame [OF c])
qed

lemma removed_iff:
  assumes inj: "inj_on (\<lambda>q. cosi_cache_key (crypto e) (PayloadHash (kernel e) s) sig q base) C"
    and sub: "\<forall>i \<in> set is. take i publics @ [rr] @ drop i publics \<in> C"
  shows "fst (verifyFinalization_removed e node s sig publics rr base is) =
     (\<exists>i \<in> set is. fst (CacheVerifyCosi (crypto e) (cacheStore node) (PayloadHash (kernel e) s) sig
          (take i publics @ [rr] @ drop i publics) base))"
  using sub
proof (induction "is" arbitrary: node)
  case Nil
  then show ?case by simp
next
  case (Cons i "is")
  let ?p = "take i publics @ [rr] @ drop i publics"
  let ?h = "PayloadHash (kernel e) s"
  obtain r node' where c: "node_CacheVerifyCosi e node ?h sig ?p base = (r, node')"
    by (cases "node_CacheVerifyCosi e node ?h sig ?p base") auto
  have r: "r = fst (CacheVerifyCosi (crypto e) (cacheStore node) ?h sig ?p base)"
    using c node_CacheVerifyCosi_fst [of e node ?h sig ?p base] by simp
  show ?case
  proof (cases r)
    case True
    with c r show ?thesis by (simp add: Let_def)
  next
    case False
    obtain st' evs
      where cc: "CacheVerifyCosi (crypto e) (cacheStore node) ?h sig ?p base = (False, st', evs)"
      using r False
      by (cases "CacheVerifyCosi (crypto e) (cacheStore node) ?h sig ?p base") auto
    have st': "cacheStore node' = st'"
      using c cc node_CacheVerifyCosi_store [of e node ?h sig ?p base] by simp
    have pC: "?p \<in> C" using Cons.prems by simp
    have same: "\<And>q. q \<in> C \<Longrightarrow>
        fst (CacheVerifyCosi (crypto e) (cacheStore node') ?h sig q base)
          = fst (CacheVerifyCosi (crypto e) (cacheStore node) ?h sig q base)"
      unfolding st' by (rule failed_call_same_verdicts [OF cc inj pC])
    have sub': "\<forall>i \<in> set is. take i publics @ [rr] @ drop i publics \<in> C"
      using Cons.prems by simp
    have eq: "verifyFinalization_removed e node s sig publics rr base (i # is) =
        verifyFinalization_removed e node' s sig publics rr base is"
      using c False by (simp add: Let_def)
    from Cons.IH [OF sub', of node'] same sub' r False show ?thesis
      unfolding eq by auto
  qed
qed

text \<open>
  What the code does for a snapshot of the current version that carries a signature,
  when no two of the lists it tries share a cache key: it passes exactly when
  \<open>CacheVerifyCosi\<close> passes with the publics of the snapshot's time, or with the recently
  removed node's key inserted before one of them, at a position \<open>i < len(publics)\<close>.
\<close>

lemma verifyFinalization_tries:
  assumes v: "Version s = SnapshotVersion (cfg e)" "Version s \<noteq> 0"
    and sg: "Signature s = Some sig"
    and inj: "inj_on (\<lambda>q. cosi_cache_key (crypto e) (PayloadHash (kernel e) s) sig q
                 (ConsensusThreshold (kernel e) (Timestamp s)))
               (set (tried_publics e node s))"
  shows "fst (verifyFinalization e node s) =
     (cosi_passes e node s sig (finalization_publics e node s) \<or>
      (\<exists>rr. ConsensusRemovedRecently (kernel e) (Timestamp s) = Some rr \<and>
        (\<exists>i<length (finalization_publics e node s).
           cosi_passes e node s sig
             (take i (finalization_publics e node s) @ [Signer_PublicSpendKey rr]
                @ drop i (finalization_publics e node s)))))"
proof -
  let ?P = "finalization_publics e node s"
  let ?h = "PayloadHash (kernel e) s"
  let ?b = "ConsensusThreshold (kernel e) (Timestamp s)"
  obtain r node' where c: "node_CacheVerifyCosi e node ?h sig ?P ?b = (r, node')"
    by (cases "node_CacheVerifyCosi e node ?h sig ?P ?b") auto
  have r: "r = cosi_passes e node s sig ?P"
    using c by (simp add: cosi_passes_def)
  show ?thesis
  proof (cases r)
    case True
    with c v sg r show ?thesis
      by (simp add: verifyFinalization_def finalization_publics_def Let_def)
  next
    case False
    show ?thesis
    proof (cases "ConsensusRemovedRecently (kernel e) (Timestamp s)")
      case None
      with False c v sg r show ?thesis
        by (simp add: verifyFinalization_def finalization_publics_def Let_def)
    next
      case (Some rr)
      let ?C = "set (tried_publics e node s)"
      let ?k = "Signer_PublicSpendKey rr"
      have PC: "?P \<in> ?C" by (simp add: tried_publics_def Let_def)
      have sub: "\<forall>i \<in> set [0..<length ?P]. take i ?P @ [?k] @ drop i ?P \<in> ?C"
        using Some by (auto simp: tried_publics_def Let_def)
      obtain st' evs
        where cc: "CacheVerifyCosi (crypto e) (cacheStore node) ?h sig ?P ?b = (False, st', evs)"
        using r False node_CacheVerifyCosi_fst [of e node ?h sig ?P ?b]
        by (cases "CacheVerifyCosi (crypto e) (cacheStore node) ?h sig ?P ?b")
           (auto simp: cosi_passes_def)
      have st': "cacheStore node' = st'"
        using c cc node_CacheVerifyCosi_store [of e node ?h sig ?P ?b] by simp
      have same: "\<And>q. q \<in> ?C \<Longrightarrow>
          fst (CacheVerifyCosi (crypto e) (cacheStore node') ?h sig q ?b)
            = fst (CacheVerifyCosi (crypto e) (cacheStore node) ?h sig q ?b)"
        unfolding st' by (rule failed_call_same_verdicts [OF cc inj PC])
      have vf: "verifyFinalization e node s =
          verifyFinalization_removed e node' s sig ?P ?k ?b [0..<length ?P]"
        using False c v sg Some
        by (simp add: verifyFinalization_def finalization_publics_def Let_def)
      have "fst (verifyFinalization e node s) =
          (\<exists>i \<in> set [0..<length ?P].
             fst (CacheVerifyCosi (crypto e) (cacheStore node) ?h sig
               (take i ?P @ [?k] @ drop i ?P) ?b))"
        unfolding vf removed_iff [OF inj sub, of node'] using same sub by auto
      with False r Some show ?thesis
        by (auto simp: cosi_passes_def node_CacheVerifyCosi_fst)
    qed
  qed
qed

text \<open>
  C5: at this input the publics are one key and a node was recently removed; the
  signature verifies with the removed node's key inserted at position 1, the last of the
  \<open>len(publics) + 1\<close> positions, and \<open>verifyFinalization\<close> returns false: the loop
  \<open>for i := range publics\<close> stops before that position.
\<close>

theorem verifyFinalization_misses_last_position:
  "finalization_publics removed_env test_node test_snapshot = [[1]] \<and>
   ConsensusRemovedRecently (kernel removed_env) (Timestamp test_snapshot) = Some removed_node \<and>
   cosi_passes removed_env test_node test_snapshot test_sig
     (take 1 [[1]] @ [Signer_PublicSpendKey removed_node] @ drop 1 [[1]]) \<and>
   fst (verifyFinalization removed_env test_node test_snapshot) = False"
  by (simp add: verifyFinalization_def finalization_publics_def cosi_passes_def
      removed_env_def removed_node_def test_defs checkInitialAcceptSnapshotWeak_def
      node_CacheVerifyCosi_def CacheVerifyCosi_def cosi_cache_key_def Let_def
      override_snap_def override_sig_def cacheStore_Get_def cacheStore_Set_def PutUint64_def)

subsection \<open>Starting a new round\<close>

lemma same_but_cache_refl: "same_but_cache node node"
  by (simp add: same_but_cache_def)

lemma same_but_cache_trans:
  "same_but_cache a b \<Longrightarrow> same_but_cache b c \<Longrightarrow> same_but_cache a c"
  by (simp add: same_but_cache_def)

lemma node_CacheVerifyCosi_frame:
  "node_CacheVerifyCosi e node snap sig publics threshold = (r, node') \<Longrightarrow>
   same_but_cache node node'"
  unfolding same_but_cache_def node_CacheVerifyCosi_def by (auto split: prod.splits)

lemma removed_frame:
  "verifyFinalization_removed e node s sig publics rr base is = (r, node') \<Longrightarrow>
   same_but_cache node node'"
proof (induction "is" arbitrary: node)
  case Nil
  then show ?case by (simp add: same_but_cache_refl)
next
  case (Cons i "is")
  obtain r1 n1 where c: "node_CacheVerifyCosi e node (PayloadHash (kernel e) s) sig
      (take i publics @ [rr] @ drop i publics) base = (r1, n1)"
    by (cases "node_CacheVerifyCosi e node (PayloadHash (kernel e) s) sig
      (take i publics @ [rr] @ drop i publics) base") auto
  have f: "same_but_cache node n1" by (rule node_CacheVerifyCosi_frame [OF c])
  show ?case
  proof (cases r1)
    case True
    with Cons.prems c have "node' = n1" by (simp add: Let_def)
    with f show ?thesis by simp
  next
    case False
    with Cons.prems c
    have "verifyFinalization_removed e n1 s sig publics rr base is = (r, node')"
      by (simp add: Let_def)
    then have "same_but_cache n1 node'" by (rule Cons.IH)
    with f show ?thesis by (rule same_but_cache_trans)
  qed
qed

lemma verifyFinalization_frame:
  assumes "verifyFinalization e node s = (r, node')"
  shows "same_but_cache node node'"
proof (cases "Version s = 0")
  case True
  with assms show ?thesis by (simp add: verifyFinalization_def same_but_cache_refl)
next
  case v: False
  show ?thesis
  proof (cases "Signature s")
    case None
    with v assms show ?thesis by (simp add: verifyFinalization_def same_but_cache_refl)
  next
    case (Some sig)
    show ?thesis
    proof (cases "Version s \<noteq> SnapshotVersion (cfg e)")
      case True
      with v Some assms show ?thesis by (simp add: verifyFinalization_def same_but_cache_refl)
    next
      case False
      let ?P = "if checkInitialAcceptSnapshotWeak e node s
                then append_pledging node (ConsensusKeys (kernel e) (Timestamp s))
                else ConsensusKeys (kernel e) (Timestamp s)"
      let ?b = "ConsensusThreshold (kernel e) (Timestamp s)"
      obtain r1 n1 where c: "node_CacheVerifyCosi e node (PayloadHash (kernel e) s) sig ?P ?b
          = (r1, n1)"
        by (cases "node_CacheVerifyCosi e node (PayloadHash (kernel e) s) sig ?P ?b") auto
      have f: "same_but_cache node n1" by (rule node_CacheVerifyCosi_frame [OF c])
      show ?thesis
      proof (cases r1)
        case True
        with v Some False c assms have "node' = n1"
          by (simp add: verifyFinalization_def Let_def)
        with f show ?thesis by simp
      next
        case r1: False
        show ?thesis
        proof (cases "ConsensusRemovedRecently (kernel e) (Timestamp s)")
          case None
          with r1 v Some False c assms have "node' = n1"
            by (simp add: verifyFinalization_def Let_def)
          with f show ?thesis by simp
        next
          case (Some rr)
          with r1 v \<open>Signature s = Some sig\<close> False c assms
          have "verifyFinalization_removed e n1 s sig ?P (Signer_PublicSpendKey rr) ?b
                  [0..<length ?P] = (r, node')"
            by (simp add: verifyFinalization_def Let_def)
          then have "same_but_cache n1 node'" by (rule removed_frame)
          with f show ?thesis by (rule same_but_cache_trans)
        qed
      qed
    qed
  qed
qed


lemma sum_less: "unat (a::u64) + unat b < unat c \<Longrightarrow> a + b < c"
proof -
  assume a: "unat a + unat b < unat c"
  with unat_u64_bound [of c] have "unat a + unat b < 2 ^ 64" by simp
  then have "unat (a + b) = unat a + unat b" using unat_add_lem [of a b] by simp
  with a show ?thesis by (simp add: word_less_nat_alt)
qed

text \<open>
  C4: for every call \<open>startNewRound(s, cache, allow_dummy)\<close> with
  \<open>s.RoundNumber == cache.Number + 1\<close> where the cache contains no snapshots, the call
  returns the error "self cache snapshots not collected yet" and leaves the node as it
  was, whatever \<open>allow_dummy\<close> and the signature of \<open>s\<close> are. The dummy round belongs to
  the absent external round: it is returned when the cache seals into a final round that
  \<open>s\<close> references, the store has no external round and no error, \<open>s\<close> passes
  \<open>verifyFinalization\<close> and \<open>allow_dummy\<close> is set.
\<close>

theorem startNewRound_empty_cache:
  assumes "RoundNumber s = cr_Number cache + 1"
  shows "(cr_Snapshots cache = [] \<longrightarrow>
           startNewRound e node s cache allowDummy
             = (Returned (None, False, Some ''self cache snapshots not collected yet''), node))
       \<and> (asFinal e cache = Some final \<and> References s = Some refs \<and> Self refs = fr_Hash final
            \<and> ReadRound (kernel e) (External refs) = (None, None)
            \<and> fst (verifyFinalization e node s) \<and> allowDummy
          \<longrightarrow> fst (startNewRound e node s cache allowDummy) = Returned (Some final, True, None))"
proof (intro conjI impI)
  assume "cr_Snapshots cache = []"
  with assms show "startNewRound e node s cache allowDummy
      = (Returned (None, False, Some ''self cache snapshots not collected yet''), node)"
    by (simp add: startNewRound_def asFinal_def)
next
  assume a: "asFinal e cache = Some final \<and> References s = Some refs \<and> Self refs = fr_Hash final
            \<and> ReadRound (kernel e) (External refs) = (None, None)
            \<and> fst (verifyFinalization e node s) \<and> allowDummy"
  obtain r node' where v: "verifyFinalization e node s = (r, node')"
    by (cases "verifyFinalization e node s") auto
  with a have "r" by simp
  with a v assms show "fst (startNewRound e node s cache allowDummy) = Returned (Some final, True, None)"
    by (simp add: startNewRound_def)
qed

theorem startNewRound_empty_cache_witness:
  "RoundNumber test_snapshot_1 = cr_Number (test_cache 0) + 1 \<and>
   cr_Snapshots (test_cache 0) = [] \<and>
   startNewRound test_env test_node test_snapshot_1 (test_cache 0) False
     = (Returned (None, False, Some ''self cache snapshots not collected yet''), test_node) \<and>
   asFinal accepting_env test_cache_full = Some (test_final 0) \<and>
   fst (verifyFinalization accepting_env test_node test_snapshot_1) \<and>
   fst (startNewRound accepting_env test_node test_snapshot_1 test_cache_full True)
     = Returned (Some (test_final 0), True, None)"
proof -
  have n: "RoundNumber test_snapshot_1 = cr_Number (test_cache 0) + 1"
    by (simp add: test_snapshot_1_def test_defs)
  have n': "RoundNumber test_snapshot_1 = cr_Number test_cache_full + 1"
    by (simp add: test_snapshot_1_def test_cache_full_def test_defs)
  have c: "cr_Snapshots (test_cache 0) = []" by (simp add: test_defs)
  have f: "asFinal accepting_env test_cache_full = Some (test_final 0)"
    by (simp add: asFinal_def accepting_env_def test_cache_full_def test_defs)
  have r: "References test_snapshot_1 = Some test_refs"
    "Self test_refs = fr_Hash (test_final 0)"
    "ReadRound (kernel accepting_env) (External test_refs) = (None, None)"
    by (simp_all add: test_snapshot_1_def test_refs_def accepting_env_def test_defs)
  have v: "fst (verifyFinalization accepting_env test_node test_snapshot_1)"
    by (simp add: verifyFinalization_def accepting_env_def test_snapshot_1_def test_defs
        checkInitialAcceptSnapshotWeak_def node_CacheVerifyCosi_def CacheVerifyCosi_def
        cosi_cache_key_def Let_def override_snap_def override_sig_def cacheStore_Get_def
        cacheStore_Set_def PutUint64_def)
  from startNewRound_empty_cache [OF n, where e = test_env and node = test_node and allowDummy = False] c
  have a: "startNewRound test_env test_node test_snapshot_1 (test_cache 0) False
     = (Returned (None, False, Some ''self cache snapshots not collected yet''), test_node)"
    by simp
  from startNewRound_empty_cache [OF n', where e = accepting_env and final = "test_final 0"
      and refs = test_refs and node = test_node and allowDummy = True]
    f r v
  have b: "fst (startNewRound accepting_env test_node test_snapshot_1 test_cache_full True)
     = Returned (Some (test_final 0), True, None)"
    by simp
  from n c a f v b show ?thesis by simp
qed

text \<open>
  Against C4 as stated: the cache holds no snapshots, \<open>allow_dummy\<close> is true and the
  snapshot's aggregated signature is valid, and the call returns the error, not a dummy
  round.
\<close>

theorem startNewRound_empty_cache_no_dummy:
  "RoundNumber test_snapshot_1 = cr_Number (test_cache 0) + 1 \<and>
   cr_Snapshots (test_cache 0) = [] \<and>
   fst (verifyFinalization accepting_env test_node test_snapshot_1) \<and>
   startNewRound accepting_env test_node test_snapshot_1 (test_cache 0) True
     = (Returned (None, False, Some ''self cache snapshots not collected yet''), test_node)"
  by (simp add: startNewRound_def asFinal_def verifyFinalization_def accepting_env_def
      test_snapshot_1_def test_defs
      checkInitialAcceptSnapshotWeak_def node_CacheVerifyCosi_def CacheVerifyCosi_def
      cosi_cache_key_def Let_def override_snap_def override_sig_def cacheStore_Get_def
      cacheStore_Set_def PutUint64_def)

text \<open>
  C9: \<open>startNewRound\<close> never returns a round for a snapshot \<open>s\<close> that does not pass
  \<open>verifyFinalization\<close> and whose external reference round has a \<open>Timestamp\<close> greater than
  \<open>s.Timestamp\<close>, or a \<open>Number\<close> more than \<open>SnapshotSyncRoundThreshold\<close> behind the number
  of the referenced node's \<open>FinalRound\<close>. It returns an error, except that it returns
  \<open>(nil, false, nil)\<close> when the external round belongs to the node of the sealed round, or
  to a node that is not a genesis node with a number below
  \<open>7 + SnapshotReferenceThreshold\<close>.
\<close>

theorem startNewRound_rejects_stale_reference:
  assumes rn: "RoundNumber s = cr_Number cache + 1"
    and refs: "References s = Some refs"
    and ext: "ReadRound (kernel e) (External refs) = (Some external, rerr)"
    and head: "FinalRound (Graph node) (r_NodeId external) = Some head"
    and nf: "\<not> fst (verifyFinalization e node s)"
    and stale: "r_Timestamp external > Timestamp s
       \<or> unat (r_Number external) + unat (SnapshotSyncRoundThreshold (cfg e))
            < unat (fr_Number head)"
  shows "(\<exists>err. fst (startNewRound e node s cache allowDummy) = Returned (None, False, Some err))
     \<or> (fst (startNewRound e node s cache allowDummy) = Returned (None, False, None) \<and>
        (\<exists>final. asFinal e cache = Some final \<and>
           (fr_NodeId final = r_NodeId external \<or>
            \<not> genesisNodesMap node (r_NodeId external) \<and>
            r_Number external < 7 + SnapshotReferenceThreshold (cfg e))))"
proof (cases "asFinal e cache")
  case None
  with rn show ?thesis by (simp add: startNewRound_def)
next
  case (Some final)
  show ?thesis
  proof (cases "Self refs \<noteq> fr_Hash final")
    case True
    with rn Some refs show ?thesis by (simp add: startNewRound_def)
  next
    case self: False
    obtain r node' where v: "verifyFinalization e node s = (r, node')"
      by (cases "verifyFinalization e node s") auto
    with nf have r: "\<not> r" by simp
    have fr: "same_but_cache node node'" by (rule verifyFinalization_frame [OF v])
    then have g: "Graph node' = Graph node" "genesisNodesMap node' = genesisNodesMap node"
      by (simp_all add: same_but_cache_def)
    show ?thesis
    proof (cases rerr)
      case (Some err)
      with rn \<open>asFinal e cache = Some final\<close> refs self v ext show ?thesis
        by (simp add: startNewRound_def)
    next
      case None
      note base = rn \<open>asFinal e cache = Some final\<close> refs self v ext None r
      show ?thesis
      proof (cases "fr_NodeId final = r_NodeId external \<or>
            \<not> genesisNodesMap node (r_NodeId external) \<and>
            r_Number external < 7 + SnapshotReferenceThreshold (cfg e)")
        case True
        with base g show ?thesis by (auto simp add: startNewRound_def)
      next
        case False
        from stale have "r_Number external + SnapshotSyncRoundThreshold (cfg e) < fr_Number head
            \<or> r_Timestamp external > Timestamp s"
          using sum_less [of "r_Number external" "SnapshotSyncRoundThreshold (cfg e)" "fr_Number head"]
          by blast
        then have "\<exists>err. startNewRound_not_finalized e node' s external = Returned (Some err)"
          using head g by (auto simp: startNewRound_not_finalized_def)
        then obtain err where "startNewRound_not_finalized e node' s external = Returned (Some err)"
          by blast
        with base g False show ?thesis by (auto simp add: startNewRound_def)
      qed
    qed
  qed
qed

theorem startNewRound_rejects_stale_reference_witness:
  "RoundNumber test_snapshot_1 = cr_Number test_cache_full + 1 \<and>
   References test_snapshot_1 = Some test_refs \<and>
   ReadRound external_kernel (External test_refs) = (Some test_external, None) \<and>
   \<not> fst (verifyFinalization (test_env\<lparr>kernel := external_kernel\<rparr>) external_node test_snapshot_1) \<and>
   r_Timestamp test_external > Timestamp test_snapshot_1 \<and>
   fst (startNewRound (test_env\<lparr>kernel := external_kernel\<rparr>) external_node test_snapshot_1
          test_cache_full False)
     = Returned (None, False, Some ''external reference too early'')"
proof -
  let ?e = "test_env\<lparr>kernel := external_kernel\<rparr>"
  have rn: "RoundNumber test_snapshot_1 = cr_Number test_cache_full + 1"
    by (simp add: test_snapshot_1_def test_cache_full_def test_defs)
  have refs: "References test_snapshot_1 = Some test_refs"
    by (simp add: test_snapshot_1_def)
  have ext: "ReadRound (kernel ?e) (External test_refs) = (Some test_external, None)"
    by (simp add: external_kernel_def)
  have head: "FinalRound (Graph external_node) (r_NodeId test_external)
      = Some \<lparr>fr_NodeId = [3], fr_Number = 200, fr_Start = 0, fr_End = 0, fr_Hash = [6]\<rparr>"
    by (simp add: external_node_def test_external_def)
  have nf: "\<not> fst (verifyFinalization ?e external_node test_snapshot_1)"
    by (simp add: verifyFinalization_def external_kernel_def external_node_def
        test_snapshot_1_def test_defs
        checkInitialAcceptSnapshotWeak_def node_CacheVerifyCosi_def CacheVerifyCosi_def
        cosi_cache_key_def Let_def override_snap_def override_sig_def cacheStore_Get_def
        cacheStore_Set_def PutUint64_def)
  have st: "r_Timestamp test_external > Timestamp test_snapshot_1"
    by (simp add: test_external_def test_snapshot_1_def test_defs)
  have fin: "asFinal ?e test_cache_full = Some (test_final 0)"
    by (simp add: asFinal_def test_cache_full_def test_defs external_kernel_def)
  have ne: "fr_NodeId (test_final 0) \<noteq> r_NodeId test_external"
    "genesisNodesMap external_node (r_NodeId test_external)"
    by (simp_all add: test_external_def external_node_def test_defs)
  from startNewRound_rejects_stale_reference [OF rn refs ext head nf, where allowDummy = False]
    st fin ne
  obtain err where err: "fst (startNewRound ?e external_node test_snapshot_1 test_cache_full False)
      = Returned (None, False, Some err)"
    by auto
  have "fst (startNewRound ?e external_node test_snapshot_1 test_cache_full False)
      = Returned (None, False, Some ''external reference too early'')"
    by (simp add: startNewRound_def startNewRound_not_finalized_def asFinal_def
        verifyFinalization_def external_kernel_def external_node_def test_external_def
        test_snapshot_1_def test_cache_full_def test_refs_def test_defs
        checkInitialAcceptSnapshotWeak_def node_CacheVerifyCosi_def CacheVerifyCosi_def
        cosi_cache_key_def Let_def override_snap_def override_sig_def cacheStore_Get_def
        cacheStore_Set_def PutUint64_def)
  with rn refs ext nf st err show ?thesis by (simp add: external_kernel_def)
qed

text \<open>
  Against C9 as stated: the external reference round is later than the snapshot and 180
  rounds behind the head of its node, the threshold being 100; the snapshot passes
  \<open>verifyFinalization\<close>, and \<open>startNewRound\<close> returns the sealed round with no error.
\<close>

theorem startNewRound_accepts_finalized_stale_reference:
  "ReadRound external_kernel (External test_refs) = (Some test_external, None) \<and>
   Timestamp test_snapshot_1 < r_Timestamp test_external \<and>
   r_Number test_external + SnapshotSyncRoundThreshold test_config = 120 \<and>
   FinalRound (Graph external_node) (r_NodeId test_external)
     = Some \<lparr>fr_NodeId = [3], fr_Number = 200, fr_Start = 0, fr_End = 0, fr_Hash = [6]\<rparr> \<and>
   fst (startNewRound (accepting_env\<lparr>kernel := external_kernel\<rparr>) external_node test_snapshot_1
          test_cache_full False)
     = Returned (Some (test_final 0), False, None)"
  by (simp add: startNewRound_def startNewRound_links_def asFinal_def
      verifyFinalization_def accepting_env_def external_kernel_def external_node_def
      test_external_def test_snapshot_1_def test_cache_full_def test_refs_def test_defs
      checkInitialAcceptSnapshotWeak_def node_CacheVerifyCosi_def CacheVerifyCosi_def
      cosi_cache_key_def Let_def override_snap_def override_sig_def cacheStore_Get_def
      cacheStore_Set_def PutUint64_def)

subsection \<open>The round gap of an external announcement\<close>

text \<open>
  C10: an external announcement of a peer's snapshot \<open>s\<close> that is not an initial accept,
  with a final round and a cache round for the peer's chain, with \<open>s.RoundNumber\<close> not
  above \<open>cache.Number + 1\<close> and with \<open>s.Timestamp\<close> at most \<open>final.Start + SnapshotRoundGap\<close>
  (the sums as the code computes them, in \<open>uint64\<close>), is dropped: the handler returns nil
  and the node, its log included, is as it was, so that no verifier is registered, no
  round assigned, nothing queued and no commitment sent.
\<close>

theorem cosiHandleAnnouncement_round_gap:
  assumes snap: "m_Snapshot m = Some s"
    and ids: "NodeId s \<noteq> IdForNetwork node" "NodeId s = m_PeerId m"
    and nw: "\<not> checkInitialAcceptSnapshotWeak e node s"
    and final: "FinalRound (Graph node) (NodeId s) = Some final"
    and cache: "CacheRound (Graph node) (NodeId s) = Some cache"
    and ahead: "\<not> RoundNumber s > cr_Number cache + 1"
    and gap: "Timestamp s \<le> fr_Start final + SnapshotRoundGap (cfg e)"
  shows "cosiHandleAnnouncement e node m = (Returned None, node)"
proof -
  have r: "\<And>tx v. cosiHandleAnnouncement_round e node m s tx v = (Returned None, node)"
    using final cache ahead gap by (simp add: cosiHandleAnnouncement_round_def)
  show ?thesis
    using snap ids nw r
    by (simp add: cosiHandleAnnouncement_def Let_def split: option.splits prod.splits)
qed

theorem cosiHandleAnnouncement_round_gap_witness:
  "m_Snapshot (announcement 7) = Some (announced_snapshot 7) \<and>
   FinalRound (Graph consensus_node) (NodeId (announced_snapshot 7)) = Some (test_final 5) \<and>
   CacheRound (Graph consensus_node) (NodeId (announced_snapshot 7)) = Some (test_cache 6) \<and>
   RoundNumber (announced_snapshot 7) = cr_Number (test_cache 6) + 1 \<and>
   Timestamp (announced_snapshot 7) \<le> fr_Start (test_final 5) + SnapshotRoundGap (cfg test_env) \<and>
   cosiHandleAnnouncement test_env consensus_node (announcement 7) = (Returned None, consensus_node)"
proof -
  have snap: "m_Snapshot (announcement 7) = Some (announced_snapshot 7)"
    by (simp add: announcement_def)
  have ids: "NodeId (announced_snapshot 7) \<noteq> IdForNetwork consensus_node"
    "NodeId (announced_snapshot 7) = m_PeerId (announcement 7)"
    by (simp_all add: announcement_def announced_snapshot_def consensus_node_def test_defs)
  have nw: "\<not> checkInitialAcceptSnapshotWeak test_env consensus_node (announced_snapshot 7)"
    by (simp add: checkInitialAcceptSnapshotWeak_def consensus_node_def test_defs)
  have final: "FinalRound (Graph consensus_node) (NodeId (announced_snapshot 7))
      = Some (test_final 5)"
    by (simp add: consensus_node_def test_graph_5_def announced_snapshot_def test_defs)
  have cache: "CacheRound (Graph consensus_node) (NodeId (announced_snapshot 7))
      = Some (test_cache 6)"
    by (simp add: consensus_node_def test_graph_5_def announced_snapshot_def test_defs)
  have rn: "RoundNumber (announced_snapshot 7) = cr_Number (test_cache 6) + 1"
    by (simp add: announced_snapshot_def test_defs)
  then have ahead: "\<not> RoundNumber (announced_snapshot 7) > cr_Number (test_cache 6) + 1"
    by simp
  have gap: "Timestamp (announced_snapshot 7)
      \<le> fr_Start (test_final 5) + SnapshotRoundGap (cfg test_env)"
    by (simp add: announced_snapshot_def test_defs)
  from cosiHandleAnnouncement_round_gap [OF snap ids nw final cache ahead gap]
    snap final cache rn gap
  show ?thesis by simp
qed

text \<open>
  Against C10 as stated: the announcement is for round 9 and the cache round is 6; its
  timestamp is within the round gap of the final round's start, and the handler queues
  the snapshot in the persistent store before it looks at the timestamp.
\<close>

theorem cosiHandleAnnouncement_requeues_before_gap:
  "\<not> checkInitialAcceptSnapshotWeak test_env consensus_node (announced_snapshot 9) \<and>
   FinalRound (Graph consensus_node) (NodeId (announced_snapshot 9)) = Some (test_final 5) \<and>
   Timestamp (announced_snapshot 9) \<le> fr_Start (test_final 5) + SnapshotRoundGap (cfg test_env) \<and>
   cosiHandleAnnouncement test_env consensus_node (announcement 9)
     = (Returned None,
        consensus_node\<lparr>log := [QueueAppendSnapshot [2] (announced_snapshot 9) False]\<rparr>)"
  by (simp add: cosiHandleAnnouncement_def cosiHandleAnnouncement_round_def
      queueSnapshotOrPanic_def perform_def getPeerConsensusNode_def
      checkInitialAcceptSnapshotWeak_def announcement_def announced_snapshot_def
      consensus_node_def test_peer_def test_graph_5_def test_refs_def test_defs Let_def
      CosiActionExternalAnnouncement_def)

subsection \<open>A challenge with a malformed signature\<close>





subsection \<open>What a handler adds to the log\<close>

lemma log_extends_append [simp]: "log_extends P l (l @ evs) = list_all P evs"
  by (auto simp: log_extends_def)

lemma log_extends_refl [simp]: "log_extends P l l"
  by (simp add: log_extends_def)

lemma log_extends_trans:
  "log_extends P l l' \<Longrightarrow> log_extends P l' l'' \<Longrightarrow> log_extends P l l''"
  by (auto simp: log_extends_def)

lemma log_extends_new:
  "log_extends P (log node) (log node') \<Longrightarrow> list_all P (new_events node node')"
  by (auto simp: log_extends_def new_events_def)

lemma perform_all_log:
  "perform_all e node evs = (err, node') \<Longrightarrow>
   \<exists>k. node' = node\<lparr>log := log node @ take k evs\<rparr>"
proof (induction evs arbitrary: node)
  case Nil
  then show ?case by simp
next
  case (Cons ev evs)
  show ?case
  proof (cases "effect_error (kernel e) ev")
    case None
    with Cons.prems have "perform_all e (node\<lparr>log := log node @ [ev]\<rparr>) evs = (err, node')"
      by (simp add: perform_def)
    from Cons.IH [OF this] obtain k
      where "node' = node\<lparr>log := log node @ [ev] @ take k evs\<rparr>" by auto
    then have "node' = node\<lparr>log := log node @ take (Suc k) (ev # evs)\<rparr>" by simp
    then show ?thesis by blast
  next
    case (Some x)
    with Cons.prems have "node' = node\<lparr>log := log node @ take 1 (ev # evs)\<rparr>"
      by (simp add: perform_def)
    then show ?thesis by blast
  qed
qed

lemma perform_all_extends:
  assumes "perform_all e node evs = (err, node')" and "list_all P evs"
  shows "log_extends P (log node) (log node')
    \<and> CosiAggregators node' = CosiAggregators node"
proof -
  from perform_all_log [OF assms(1)] obtain k
    where k: "node' = node\<lparr>log := log node @ take k evs\<rparr>" by blast
  from assms(2) have "list_all P (take k evs)"
    by (auto simp: list_all_iff dest: in_set_takeD)
  with k show ?thesis by simp
qed

lemma clearAndQueue_log:
  "clearAndQueueSnapshotOrPanic e node s = (r, node') \<Longrightarrow>
   log node' = log node @ [QueueAppendSnapshot (IdForNetwork node)
        (fresh_Snapshot (SnapshotVersion (cfg e)) (NodeId s) (Transaction s)) False]
   \<and> CosiAggregators node' (Hash s) = None"
  by (auto simp: clearAndQueueSnapshotOrPanic_def queueSnapshotOrPanic_def perform_def Let_def
      split: option.splits)


lemma finalization_messages_plain:
  "list_all (\<lambda>ev. finalized_snapshot ev = None) (finalization_messages node s)"
  by (auto simp: finalization_messages_def list_all_iff)

lemma transaction_messages_plain:
  "list_all (\<lambda>ev. finalized_snapshot ev = None) (transaction_and_finalization_messages node agg)"
  by (auto simp: transaction_and_finalization_messages_def list_all_iff)

lemma take_plain:
  "list_all (\<lambda>ev. finalized_snapshot ev = None) evs \<Longrightarrow>
   list_all (\<lambda>ev. finalized_snapshot ev = None \<or> finalized_snapshot ev = Some s) (take k evs)"
  by (auto simp: list_all_iff dest: in_set_takeD)

lemma finalize_events:
  assumes "cosiHandleResponse_finalize e node agg tx = (r, node')"
  shows "log_extends (\<lambda>ev. finalized_snapshot ev = None
                         \<or> finalized_snapshot ev = Some (agg_Snapshot agg))
           (log node) (log node')"
  using assms
  apply (simp add: cosiHandleResponse_finalize_def Let_def perform_def
      split: if_splits option.splits prod.splits outcome.splits bool.splits)
  apply (auto dest!: perform_all_log clearAndQueue_log
      simp: take_plain finalization_messages_plain transaction_messages_plain)
  done


lemma finalize_keeps:
  assumes "cosiHandleResponse_finalize e node agg tx = (r, node')"
  shows "CosiAggregators node' = CosiAggregators node
       \<or> list_all (\<lambda>ev. finalized_snapshot ev = None) (new_events node node')"
  using assms
  apply (simp add: cosiHandleResponse_finalize_def Let_def perform_def new_events_def
      split: if_splits option.splits prod.splits outcome.splits bool.splits)
  apply (auto dest!: perform_all_log clearAndQueue_log)
  done


lemma node_CacheVerifyCosi_log:
  "node_CacheVerifyCosi e node snap sig publics t = (b, node') \<Longrightarrow>
   log_extends (\<lambda>ev. finalized_snapshot ev = None) (log node) (log node')"
  by (auto simp: node_CacheVerifyCosi_def list_all_iff split: prod.splits)

lemma log_extends_weaken:
  "log_extends P l l' \<Longrightarrow> (\<And>ev. P ev \<Longrightarrow> Q ev) \<Longrightarrow> log_extends Q l l'"
  by (auto simp: log_extends_def list_all_iff)

lemma log_extends_new_event:
  "log_extends P (log node) (log node') \<Longrightarrow> ev \<in> set (new_events node node') \<Longrightarrow> P ev"
  by (auto simp: log_extends_def new_events_def list_all_iff)

lemma log_extends_none_new:
  "log_extends (\<lambda>ev. finalized_snapshot ev = None) (log node) (log node') \<Longrightarrow>
   ev \<in> set (new_events node node') \<Longrightarrow> finalized_snapshot ev = None"
  by (auto simp: log_extends_def new_events_def list_all_iff)

lemma respond_events:
  assumes c: "cosiHandleResponse_respond e node m agg tx base = (r, node')"
    and ev: "ev \<in> set (new_events node node')" "finalized_snapshot ev = Some s"
  shows "(\<exists>sig publics. s = (agg_Snapshot agg)\<lparr>Signature := Some sig\<rparr> \<and>
       (publics = ConsensusKeys (kernel e) (Timestamp s)
        \<or> publics = append_pledging node (ConsensusKeys (kernel e) (Timestamp s))) \<and>
       fst (CacheVerifyCosi (crypto e) (cacheStore node) (m_SnapshotHash m) sig publics base))
     \<and> CosiAggregators node' (m_SnapshotHash m) \<noteq> None"
proof -
  obtain ra agg1 where a: "cosiHandleResponse_aggregate e node m agg = (ra, agg1)"
    by (cases "cosiHandleResponse_aggregate e node m agg") auto
  have snap1: "\<exists>x. agg_Snapshot agg1 = (agg_Snapshot agg)\<lparr>Signature := x\<rparr>"
  proof -
    have "agg_Snapshot agg = (agg_Snapshot agg)\<lparr>Signature := Signature (agg_Snapshot agg)\<rparr>"
      by simp
    moreover have "agg1 = agg \<or>
        (\<exists>x. agg1 = agg\<lparr>agg_Snapshot := (agg_Snapshot agg)\<lparr>Signature := x\<rparr>\<rparr>)"
      using a
      by (auto simp: cosiHandleResponse_aggregate_def Let_def
          split: option.splits prod.splits)
    ultimately show ?thesis by (metis CosiAggregator.select_convs(1) CosiAggregator.surjective
          CosiAggregator.update_convs(1))
  qed
  let ?agg2 = "agg1\<lparr>agg_responsed := AList.update (m_PeerId m) True (agg_responsed agg1)\<rparr>"
  let ?node1 = "node\<lparr>CosiAggregators := (CosiAggregators node)(m_SnapshotHash m \<mapsto> ?agg2)\<rparr>"
  let ?s = "agg_Snapshot agg1"
  let ?publics = "if checkInitialAcceptSnapshot e ?node1 ?s tx
      then append_pledging ?node1 (ConsensusKeys (kernel e) (Timestamp ?s))
      else ConsensusKeys (kernel e) (Timestamp ?s)"
  have new_upd: "\<And>x. new_events node (node\<lparr>CosiAggregators := x\<rparr>) = []"
    by (simp add: new_events_def)
  show ?thesis
  proof (cases ra)
    case (Panicked p)
    with c a ev new_upd show ?thesis
      by (auto simp: cosiHandleResponse_respond_def)
  next
    case (Returned err)
    show ?thesis
    proof (cases err)
      case (Some x)
      with Returned c a ev new_upd show ?thesis
        by (auto simp: cosiHandleResponse_respond_def)
    next
      case None
      show ?thesis
      proof (cases "length (agg_responsed ?agg2) \<noteq> length (agg_Commitments ?agg2)")
        case True
        with None Returned c a have "node' = ?node1"
          by (simp add: cosiHandleResponse_respond_def Let_def)
        with ev new_upd show ?thesis by auto
      next
        case len: False
        show ?thesis
        proof (cases "Signature ?s")
          case None
          with len \<open>err = None\<close> Returned c a have "node' = ?node1"
            by (simp add: cosiHandleResponse_respond_def Let_def)
          with ev new_upd show ?thesis by auto
        next
          case (Some cosi)
          obtain b node2
            where v: "node_CacheVerifyCosi e ?node1 (m_SnapshotHash m) cosi ?publics base
                = (b, node2)"
            by (cases "node_CacheVerifyCosi e ?node1 (m_SnapshotHash m) cosi ?publics base") auto
          have l2: "log_extends (\<lambda>ev. finalized_snapshot ev = None) (log node) (log node2)"
            using node_CacheVerifyCosi_log [OF v] by simp
          have b: "b = fst (CacheVerifyCosi (crypto e) (cacheStore node) (m_SnapshotHash m)
              cosi ?publics base)"
            using v by (auto simp: node_CacheVerifyCosi_def split: prod.splits)
          show ?thesis
          proof (cases b)
            case False
            with Some len \<open>err = None\<close> Returned c a v have "node' = node2"
              by (simp add: cosiHandleResponse_respond_def Let_def)
            with l2 ev log_extends_none_new show ?thesis by fastforce
          next
            case True
            with Some len \<open>err = None\<close> Returned c a v
            have f: "cosiHandleResponse_finalize e node2 ?agg2 tx = (r, node')"
              by (simp add: cosiHandleResponse_respond_def Let_def)
            have l3: "log_extends (\<lambda>ev. finalized_snapshot ev = None
                         \<or> finalized_snapshot ev = Some ?s) (log node) (log node')"
            proof -
              have w: "log_extends (\<lambda>ev. finalized_snapshot ev = None
                         \<or> finalized_snapshot ev = Some ?s) (log node) (log node2)"
                by (rule log_extends_weaken [OF l2]) simp
              have x: "log_extends (\<lambda>ev. finalized_snapshot ev = None
                         \<or> finalized_snapshot ev = Some ?s) (log node2) (log node')"
                using finalize_events [OF f] by simp
              show ?thesis by (rule log_extends_trans [OF w x])
            qed
            from log_extends_new_event [OF l3 ev(1)] ev(2) have s: "s = ?s"
              by simp
            from snap1 Some have s': "?s = (agg_Snapshot agg)\<lparr>Signature := Some cosi\<rparr>"
              by auto
            have p: "?publics = ConsensusKeys (kernel e) (Timestamp s)
                \<or> ?publics = append_pledging node (ConsensusKeys (kernel e) (Timestamp s))"
              using s by (simp add: append_pledging_def)
            have k: "CosiAggregators node' (m_SnapshotHash m) \<noteq> None"
            proof -
              have n2: "CosiAggregators node2 = CosiAggregators ?node1"
                using v by (auto simp: node_CacheVerifyCosi_def split: prod.splits)
              from finalize_keeps [OF f]
              show ?thesis
              proof
                assume "CosiAggregators node' = CosiAggregators node2"
                with n2 show ?thesis by simp
              next
                assume n: "list_all (\<lambda>ev. finalized_snapshot ev = None) (new_events node2 node')"
                from finalize_events [OF f] obtain evs where "log node' = log node2 @ evs"
                  by (auto simp: log_extends_def)
                with n have "log_extends (\<lambda>ev. finalized_snapshot ev = None)
                    (log node2) (log node')"
                  by (simp add: new_events_def)
                with l2 have "log_extends (\<lambda>ev. finalized_snapshot ev = None)
                    (log node) (log node')"
                  by (rule log_extends_trans)
                from log_extends_none_new [OF this ev(1)] ev(2) show ?thesis by simp
              qed
            qed
            from s s' p b True k show ?thesis by blast
          qed
        qed
      qed
    qed
  qed
qed




subsection \<open>Threshold safety of a finalization\<close>

lemmas response_eval =
  cosiHandleResponse_def cosiHandleResponse_respond_def cosiHandleResponse_aggregate_def
  cosiHandleResponse_finalize_def clearAndQueueSnapshotOrPanic_def queueSnapshotOrPanic_def
  finalization_messages_def transaction_and_finalization_messages_def References_Equal_def
  go_lookup_def perform_def checkInitialAcceptSnapshot_def checkInitialAcceptSnapshotWeak_def
  append_pledging_def node_CacheVerifyCosi_def CacheVerifyCosi_def cosi_cache_key_def
  override_snap_def override_sig_def cacheStore_Get_def cacheStore_Set_def PutUint64_def
  new_events_def Let_def
  proposed_snapshot_def proposed_aggregator_def proposer_graph_def proposer_node_def
  response_def aggregated_snapshot_def accepting_env_def override_env_def test_peer_def
  test_refs_def CosiActionSelfResponse_def






subsection \<open>The aggregator of a finalized snapshot\<close>

text \<open>What the two ends of the response handler do to the aggregator map: the
  clear-and-requeue path deletes the snapshot's entry, and a handler run that finalizes
  leaves the entry in the map.\<close>

lemma clearAndQueueSnapshotOrPanic_deletes:
  "CosiAggregators (snd (clearAndQueueSnapshotOrPanic e node s)) (Hash s) = None"
  using clearAndQueue_log [of e node s] by (cases "clearAndQueueSnapshotOrPanic e node s") simp

lemma cosiHandleResponse_keeps_aggregator:
  assumes c: "cosiHandleResponse e node m = (r, node')"
    and ev: "ev \<in> set (new_events node node')" "finalized_snapshot ev = Some s"
  shows "CosiAggregators node' (m_SnapshotHash m) \<noteq> None"
proof -
  have nil: "new_events node node = []" by (simp add: new_events_def)
  have "\<exists>agg tx base. cosiHandleResponse_respond e node m agg tx base = (r, node')"
  proof (rule ccontr)
    assume n: "\<not> ?thesis"
    from c have "node' = node"
      using n
      by (auto simp: cosiHandleResponse_def Let_def
          split: if_splits option.splits prod.splits)
    with ev nil show False by simp
  qed
  then obtain agg tx base
    where "cosiHandleResponse_respond e node m agg tx base = (r, node')" by blast
  from respond_events [OF this ev] show ?thesis by blast
qed

text \<open>
  C6: at this input the proposer receives the last response, the aggregated signature
  verifies and the snapshot is written and announced as finalized; the handler returns
  nil and the aggregator of the snapshot's hash is still in \<open>CosiAggregators\<close>.
\<close>

theorem cosiHandleResponse_leaves_aggregator:
  "fst (cosiHandleResponse accepting_env proposer_node response) = Returned None \<and>
   new_events proposer_node (snd (cosiHandleResponse accepting_env proposer_node response))
     = [CacheEvent (CacheGet ''KERNEL:COSISIGNATURE:00100000001''),
        CacheEvent (FullVerifyCall \<lparr>cosi_Signatures = [[4]], cosi_Mask = 0\<rparr> [[1]] 1 [0]),
        CacheEvent (CacheSet ''KERNEL:COSISIGNATURE:00100000001'' [1]),
        WriteSnapshot aggregated_snapshot 1,
        SendSnapshotFinalizationMessage [2] aggregated_snapshot,
        ReloadConsensusNodesList aggregated_snapshot test_tx] \<and>
   CosiAggregators (snd (cosiHandleResponse accepting_env proposer_node response))
       (Hash aggregated_snapshot)
     = Some (proposed_aggregator\<lparr>agg_Snapshot := aggregated_snapshot,
                                  agg_responsed := [([1], True), ([2], True)]\<rparr>)"
  by (simp add: response_eval test_defs)

end
